theory Spec2Isabelle
  imports Complex_Main
begin

section \<open>The 3D portfolio scene of ThreePortfolio.svelte\<close>

text \<open>
  The source file holds two components. The first (lines 1-246) is the Svelte action
  \<^verbatim>\<open>threeSceneAction\<close>; the second (lines 247-431) is an \<^verbatim>\<open>onMount\<close> component with
  the same structure and fewer safeguards. Definitions without a suffix embed the
  action; definitions with the suffix \<open>_onMount\<close> embed the second component.

  In the ticks of both components JavaScript numbers are embedded as exact reals,
  without the rounding of IEEE doubles. The smoothing update of line 168 is embedded a
  second time with that rounding (\<open>smooth_double\<close>), for the one property that
  rounding decides. The one place where the source divides by a quantity that may be
  zero (the aspect ratio) is embedded with the values \<^verbatim>\<open>Infinity\<close> and \<^verbatim>\<open>NaN\<close> written
  out. Libraries outside the repository (the ray caster, the orbit controls, the clock)
  are inputs of each tick.
\<close>

subsection \<open>Scene objects and references\<close>

text \<open>
  An \<^verbatim>\<open>Object3D\<close> is an identity with its \<^verbatim>\<open>parent\<close> pointer. A scene graph is a
  tree, so the chain of parents is finite and is a structural field here;
  \<open>None\<close> is the source's \<^verbatim>\<open>null\<close> parent.
\<close>

datatype node = Node (nid: nat) (parent: "node option")

text \<open>
  Values compared with \<^verbatim>\<open>===\<close>: a variable declared without initialiser holds
  \<^verbatim>\<open>undefined\<close>, a missing parent is \<^verbatim>\<open>null\<close>, and the two differ.
\<close>

datatype jsref = Undefined | Null | Obj node

definition nullable :: "node option \<Rightarrow> jsref" where
  "nullable v = (case v of None \<Rightarrow> Null | Some n \<Rightarrow> Obj n)"

definition uninitialised :: "node option \<Rightarrow> jsref" where
  "uninitialised v = (case v of None \<Rightarrow> Undefined | Some n \<Rightarrow> Obj n)"

text \<open>\<^verbatim>\<open>x?.parent\<close>: \<^verbatim>\<open>undefined\<close> when \<open>x\<close> is \<^verbatim>\<open>null\<close> or \<^verbatim>\<open>undefined\<close>.\<close>

definition optional_parent :: "jsref \<Rightarrow> jsref" where
  "optional_parent r = (case r of Obj n \<Rightarrow> nullable (parent n) | _ \<Rightarrow> Undefined)"

text \<open>\<^verbatim>\<open>[cameraModel, macbookModel].filter(Boolean)\<close>\<close>

fun filter_Boolean :: "'a option list \<Rightarrow> 'a list" where
  "filter_Boolean [] = []"
| "filter_Boolean (None # xs) = filter_Boolean xs"
| "filter_Boolean (Some x # xs) = x # filter_Boolean xs"

text \<open>
  Lines 148-151:
  \<^verbatim>\<open>while (parent && !models.includes(parent)) parent = parent.parent;\<close>
\<close>

fun find_root :: "node list \<Rightarrow> node option \<Rightarrow> node option" where
  "find_root models None = None"
| "find_root models (Some (Node i p)) =
     (if Node i p \<in> set models then Some (Node i p) else find_root models p)"

subsection \<open>Vectors\<close>

type_synonym vec3 = "real \<times> real \<times> real"

fun add_vec :: "vec3 \<Rightarrow> vec3 \<Rightarrow> vec3" where
  "add_vec (x1, y1, z1) (x2, y2, z2) = (x1 + x2, y1 + y2, z1 + z2)"

text \<open>\<^verbatim>\<open>Vector3.lerpVectors(v1, v2, alpha)\<close>: \<^verbatim>\<open>v1 + (v2 - v1) * alpha\<close> per component.\<close>

fun lerpVectors :: "vec3 \<Rightarrow> vec3 \<Rightarrow> real \<Rightarrow> vec3" where
  "lerpVectors (x1, y1, z1) (x2, y2, z2) alpha =
     (x1 + (x2 - x1) * alpha, y1 + (y2 - y1) * alpha, z1 + (z2 - z1) * alpha)"

subsection \<open>The aspect ratio\<close>

text \<open>
  \<^verbatim>\<open>node.clientWidth / node.clientHeight\<close> on non-negative integers: division by zero
  gives \<^verbatim>\<open>Infinity\<close>, and \<^verbatim>\<open>0 / 0\<close> gives \<^verbatim>\<open>NaN\<close>.
\<close>

datatype jsnum = Num real | Infinity | NaN

definition js_div :: "nat \<Rightarrow> nat \<Rightarrow> jsnum" where
  "js_div w h =
     (if h = 0 then (if w = 0 then NaN else Infinity) else Num (real w / real h))"

subsection \<open>State of the action\<close>

text \<open>
  The closure of one camera focus animation (\<^verbatim>\<open>focusOn\<close>, lines 183-205): its
  \<^verbatim>\<open>start\<close>, \<^verbatim>\<open>end\<close>, \<^verbatim>\<open>progress\<close>, \<^verbatim>\<open>portfolio\<close> and \<^verbatim>\<open>focusAnimationId\<close>.
\<close>

record focus =
  fstart :: vec3
  fend :: vec3
  progress :: real
  portfolio :: string
  focusAnimationId :: "nat option"

text \<open>What \<^verbatim>\<open>requestAnimationFrame\<close> was given: \<^verbatim>\<open>animate\<close>, or the \<^verbatim>\<open>move\<close> of a closure.\<close>

datatype callback = Animate | Move focus

datatype listener = Mousemove | Click | Resize

datatype resource = FloorGeo | FloorMat | Loaded nat

record mesh =
  geometry :: resource
  material :: resource

text \<open>
  What the loader hands to its callback: the identity of \<^verbatim>\<open>gltf.scene\<close> and the meshes
  below it, in traversal order.
\<close>

record gltf =
  gscene :: nat
  gfirst :: "nat option"
    \<comment> \<open>the identity of \<^verbatim>\<open>gltf.scene.children[0]\<close>, when the scene has children\<close>
  gmeshes :: "mesh list"

datatype error = TypeError

text \<open>What the libraries and the clock give to one tick of \<^verbatim>\<open>animate\<close>.\<close>

record tick =
  orbit :: "vec3 \<Rightarrow> vec3"
    \<comment> \<open>the position \<^verbatim>\<open>controls.update()\<close> writes to the camera, from the current one\<close>
  hits :: "node list"
    \<comment> \<open>the objects of \<^verbatim>\<open>raycaster.intersectObjects(models, true)\<close>, nearest first\<close>
  now_camera :: int
    \<comment> \<open>\<^verbatim>\<open>Date.now()\<close> at line 173\<close>
  now_computer :: int
    \<comment> \<open>\<^verbatim>\<open>Date.now()\<close> at line 176\<close>

record state =
  camera_position :: vec3
  camera_aspect :: jsnum
  projection_aspect :: jsnum
    \<comment> \<open>the aspect the projection matrix was last computed from\<close>
  renderer_size :: "nat \<times> nat"
  renderer_disposed :: nat
  controls_disposed :: nat
  frames :: "vec3 list"
    \<comment> \<open>the camera position of every \<^verbatim>\<open>renderer.render\<close> call, oldest first\<close>
  cameraGlow :: real
  computerGlow :: real
  cameraModel :: "node option"
  macbookModel :: "node option"
  hoveredObject :: "node option"
  cameraTargetIntensity :: real
  computerTargetIntensity :: real
  animationFrameId :: nat
  raf_queue :: "(nat \<times> callback) list"
    \<comment> \<open>the callbacks the host will run at the next frame, with their request ids\<close>
  next_raf :: nat
  listeners :: "listener list"
  console :: "string list list"
  scene_meshes :: "mesh list"
    \<comment> \<open>the meshes \<^verbatim>\<open>scene.traverse\<close> visits, in its order\<close>
  disposed :: "resource list"
    \<comment> \<open>one entry per \<^verbatim>\<open>dispose()\<close> call on a geometry or material\<close>
  world_position :: "node \<Rightarrow> vec3"
    \<comment> \<open>what \<^verbatim>\<open>getWorldPosition\<close> gives for an object\<close>
  first_child :: "node \<Rightarrow> node option"
    \<comment> \<open>\<^verbatim>\<open>children[0]\<close> of an object, \<open>None\<close> for \<^verbatim>\<open>undefined\<close>; read by the second component only\<close>

subsection \<open>The animation loop (lines 133-180)\<close>

definition requestAnimationFrame :: "callback \<Rightarrow> state \<Rightarrow> nat \<times> state" where
  "requestAnimationFrame cb s =
     (next_raf s,
      s\<lparr>raf_queue := raf_queue s @ [(next_raf s, cb)], next_raf := next_raf s + 1\<rparr>)"

text \<open>Lines 138-165: hit testing and the light targets.\<close>

definition hover_stage :: "tick \<Rightarrow> state \<Rightarrow> state" where
  "hover_stage inp s =
     (let models = filter_Boolean [cameraModel s, macbookModel s] in
      if length models > 0 then
        (case hits inp of
           target # _ \<Rightarrow>
             (let s1 = s\<lparr>hoveredObject := Some target\<rparr>;
                  root = nullable (find_root models (parent target)) in
              if root = uninitialised (cameraModel s1) then
                s1\<lparr>cameraTargetIntensity := 2.5, computerTargetIntensity := 0\<rparr>
              else if root = uninitialised (macbookModel s1) then
                s1\<lparr>cameraTargetIntensity := 0, computerTargetIntensity := 2.5\<rparr>
              else s1)
         | [] \<Rightarrow>
             s\<lparr>hoveredObject := None,
               cameraTargetIntensity := 0, computerTargetIntensity := 0\<rparr>)
      else s)"

text \<open>Lines 168-169: \<^verbatim>\<open>intensity += (target - intensity) * 0.08\<close>.\<close>

definition smooth :: "real \<Rightarrow> real \<Rightarrow> real" where
  "smooth intensity target = intensity + (target - intensity) * 0.08"

text \<open>Lines 172-177: \<^verbatim>\<open>if (intensity > 0.3) intensity += Math.sin(Date.now() * f) * 0.05\<close>.\<close>

definition flicker :: "real \<Rightarrow> int \<Rightarrow> real \<Rightarrow> real" where
  "flicker f now intensity =
     (if intensity > 0.3 then intensity + sin (real_of_int now * f) * 0.05
      else intensity)"

definition light_stage :: "tick \<Rightarrow> state \<Rightarrow> state" where
  "light_stage inp s =
     (let s1 = s\<lparr>cameraGlow := smooth (cameraGlow s) (cameraTargetIntensity s)\<rparr>;
          s2 = s1\<lparr>computerGlow := smooth (computerGlow s1) (computerTargetIntensity s1)\<rparr>;
          s3 = s2\<lparr>cameraGlow := flicker 0.02 (now_camera inp) (cameraGlow s2)\<rparr>
      in s3\<lparr>computerGlow := flicker 0.018 (now_computer inp) (computerGlow s3)\<rparr>)"

definition animate :: "tick \<Rightarrow> state \<Rightarrow> state" where
  "animate inp s =
     (let (fid, s1) = requestAnimationFrame Animate s;
          s2 = s1\<lparr>animationFrameId := fid\<rparr>;
          s3 = s2\<lparr>camera_position := orbit inp (camera_position s2)\<rparr>;
          s4 = hover_stage inp s3;
          s5 = light_stage inp s4
      in s5\<lparr>frames := frames s5 @ [camera_position s5]\<rparr>)"

subsection \<open>The smoothing update in double arithmetic (line 168)\<close>

text \<open>
  A JavaScript number is an IEEE 754 binary64 value: a sign, a significand of 53 bits
  and an exponent from \<open>-1022\<close> to \<open>1023\<close>, with subnormal numbers below \<open>1 / 2 ^ 1022\<close>. Every
  arithmetic operation gives the representable number nearest to the exact result, and
  of two equally near ones the one with the even significand. A decimal literal such
  as \<^verbatim>\<open>0.08\<close> stands for the representable number nearest to it.

  The integer nearest to \<open>y\<close>, the even one of two:
\<close>

definition round_even :: "real \<Rightarrow> int" where
  "round_even y =
     (if y - of_int \<lfloor>y\<rfloor> < 1 / 2 then \<lfloor>y\<rfloor>
      else if 1 / 2 < y - of_int \<lfloor>y\<rfloor> then \<lfloor>y\<rfloor> + 1
      else if even \<lfloor>y\<rfloor> then \<lfloor>y\<rfloor> else \<lfloor>y\<rfloor> + 1)"

text \<open>
  The exponent of the representation of \<open>x\<close>, which for zero and the subnormal numbers
  is the least one, and the distance between neighbouring representable numbers there
  (the unit in the last place).
\<close>

definition binade :: "real \<Rightarrow> int" where
  "binade x = (if x = 0 then - 1022 else max \<lfloor>log 2 \<bar>x\<bar>\<rfloor> (- 1022))"

definition ulp :: "real \<Rightarrow> real" where
  "ulp x = 2 powr (of_int (binade x) - 52)"

text \<open>
  Rounding to binary64. The two zeros are not told apart, and there is no overflow
  here: a result of magnitude \<open>2 ^ 1024\<close> or more, which is \<^verbatim>\<open>Infinity\<close> in JavaScript,
  is rounded like any other, so \<open>double\<close> is the rounding of the source only below
  that magnitude. The lights stay far below it.
\<close>

definition double :: "real \<Rightarrow> real" where
  "double x = of_int (round_even (x / ulp x)) * ulp x"

text \<open>
  Line 168, \<^verbatim>\<open>intensity += (target - intensity) * 0.08\<close>, on doubles: a subtraction, a
  multiplication by the literal and an addition, each rounded.
\<close>

definition smooth_double :: "real \<Rightarrow> real \<Rightarrow> real" where
  "smooth_double intensity target =
     double (intensity + double (double (target - intensity) * double 0.08))"


subsection \<open>Camera focus animation (lines 183-205)\<close>

definition duration :: real where
  "duration = 1.2"

text \<open>
  One call of \<^verbatim>\<open>move\<close> on the closure \<open>f\<close>. The closure that is scheduled again is
  the same closure with its variables updated.
\<close>

definition move :: "focus \<Rightarrow> state \<Rightarrow> state" where
  "move f s =
     (let f1 = f\<lparr>progress := progress f + 0.02 / duration\<rparr> in
      if progress f1 < 1 then
        (let s1 = s\<lparr>camera_position := lerpVectors (fstart f1) (fend f1) (progress f1)\<rparr>
         in snd (requestAnimationFrame (Move (f1\<lparr>focusAnimationId := Some (next_raf s1)\<rparr>)) s1))
      else
        s\<lparr>camera_position := fend f1,
          console := console s @ [[''Open portfolio:'', portfolio f1]]\<rparr>)"

text \<open>
  \<^verbatim>\<open>focusOn(obj, portfolio)\<close>. The callers pass \<^verbatim>\<open>cameraModel!\<close>, which is
  \<^verbatim>\<open>undefined\<close> before the model has loaded; \<^verbatim>\<open>obj.getWorldPosition\<close> then throws.
\<close>

definition focusOn :: "node option \<Rightarrow> string \<Rightarrow> state \<Rightarrow> error + state" where
  "focusOn obj key s =
     (case obj of
        None \<Rightarrow> Inl TypeError
      | Some m \<Rightarrow>
          (let targetPos = world_position s m;
               start = camera_position s;
               end = add_vec targetPos (0, 0.5, 2)
           in Inr (move \<lparr>fstart = start, fend = end, progress = 0, portfolio = key,
                          focusAnimationId = None\<rparr> s)))"

subsection \<open>Click (lines 113-122)\<close>

definition onClick :: "state \<Rightarrow> error + state" where
  "onClick s =
     (case hoveredObject s of
        None \<Rightarrow> Inr s
      | Some h \<Rightarrow>
          if nullable (parent h) = uninitialised (cameraModel s)
             \<or> optional_parent (nullable (parent h)) = uninitialised (cameraModel s)
          then focusOn (cameraModel s) ''photography'' s
          else if nullable (parent h) = uninitialised (macbookModel s)
             \<or> optional_parent (nullable (parent h)) = uninitialised (macbookModel s)
          then focusOn (macbookModel s) ''computerscience'' s
          else Inr s)"

subsection \<open>Resize (lines 210-214)\<close>

definition handleResize :: "nat \<Rightarrow> nat \<Rightarrow> state \<Rightarrow> state" where
  "handleResize clientWidth clientHeight s =
     (let s1 = s\<lparr>camera_aspect := js_div clientWidth clientHeight\<rparr>;
          s2 = s1\<lparr>projection_aspect := camera_aspect s1\<rparr>
      in s2\<lparr>renderer_size := (clientWidth, clientHeight)\<rparr>)"

subsection \<open>Cleanup (lines 219-237)\<close>

definition cancelAnimationFrame :: "nat \<Rightarrow> state \<Rightarrow> state" where
  "cancelAnimationFrame i s = s\<lparr>raf_queue := filter (\<lambda>(j, cb). j \<noteq> i) (raf_queue s)\<rparr>"

definition removeEventListener :: "listener \<Rightarrow> state \<Rightarrow> state" where
  "removeEventListener l s = s\<lparr>listeners := removeAll l (listeners s)\<rparr>"

definition dispose_meshes :: "mesh list \<Rightarrow> resource list" where
  "dispose_meshes ms = concat (map (\<lambda>m. [geometry m, material m]) ms)"

definition destroy :: "state \<Rightarrow> state" where
  "destroy s =
     (let s1 = cancelAnimationFrame (animationFrameId s) s;
          s2 = removeEventListener Mousemove s1;
          s3 = removeEventListener Click s2;
          s4 = removeEventListener Resize s3;
          s5 = s4\<lparr>renderer_disposed := renderer_disposed s4 + 1\<rparr>;
          s6 = s5\<lparr>controls_disposed := controls_disposed s5 + 1\<rparr>
      in s6\<lparr>disposed := disposed s6 @ dispose_meshes (scene_meshes s6)\<rparr>)"

subsection \<open>Loading and set-up (lines 12-101, 124-131, 207, 215)\<close>

definition scene :: node where
  "scene = Node 0 None"

text \<open>
  The callbacks of \<^verbatim>\<open>loader.load\<close>: the model is placed and added to the scene, which
  makes the scene its parent. The scene itself is never moved, so the world position
  of a model is the position set here. Shadow and material flags are not part of the
  state.
\<close>

definition camera_loaded :: "gltf \<Rightarrow> state \<Rightarrow> state" where
  "camera_loaded g s =
     (let m = Node (gscene g) (Some scene) in
      s\<lparr>cameraModel := Some m,
        world_position := (world_position s)(m := (- 0.3, 0, 0)),
        scene_meshes := scene_meshes s @ gmeshes g\<rparr>)"

definition computer_loaded :: "gltf \<Rightarrow> state \<Rightarrow> state" where
  "computer_loaded g s =
     (let m = Node (gscene g) (Some scene) in
      s\<lparr>macbookModel := Some m,
        world_position := (world_position s)(m := (0.3, 0, 0)),
        scene_meshes := scene_meshes s @ gmeshes g\<rparr>)"

text \<open>
  \<^verbatim>\<open>threeSceneAction(node)\<close> up to its \<^verbatim>\<open>return\<close>: the scene is built, the mouse and
  click listeners are registered, \<^verbatim>\<open>animate()\<close> runs once, the resize listener is
  registered.
\<close>

definition threeSceneAction :: "nat \<Rightarrow> nat \<Rightarrow> tick \<Rightarrow> state" where
  "threeSceneAction clientWidth clientHeight inp =
     (let s0 = \<lparr>camera_position = (0.5, 0, 1),
                camera_aspect = js_div clientWidth clientHeight,
                projection_aspect = js_div clientWidth clientHeight,
                renderer_size = (clientWidth, clientHeight),
                renderer_disposed = 0,
                controls_disposed = 0,
                frames = [],
                cameraGlow = 0,
                computerGlow = 0,
                cameraModel = None,
                macbookModel = None,
                hoveredObject = None,
                cameraTargetIntensity = 0,
                computerTargetIntensity = 0,
                animationFrameId = 0,
                raf_queue = [],
                next_raf = 1,
                listeners = [Mousemove, Click],
                console = [],
                scene_meshes = [\<lparr>geometry = FloorGeo, material = FloorMat\<rparr>],
                disposed = [],
                world_position = (\<lambda>n. (0, 0, 0)),
                first_child = (\<lambda>n. None)\<rparr>;
          s1 = animate inp s0
      in s1\<lparr>listeners := listeners s1 @ [Resize]\<rparr>)"

subsection \<open>The host\<close>

text \<open>
  What the page can do to the component. A frame runs the callbacks that were
  requested before it, in the order of their requests; a callback requested during
  the frame runs at the next one. An event is delivered only to a registered
  listener, and an exception thrown by a listener is not caught by the component:
  the listener stops and the state is what it had written so far (nothing, for
  \<^verbatim>\<open>onClick\<close>). The pointer position only feeds the ray caster, whose result is an
  input of the frame.
\<close>

datatype event =
    Camera_loaded gltf
  | Computer_loaded gltf
  | Clicked
  | Frame tick
  | Resized nat nat
  | Destroyed

fun run_callback :: "tick \<Rightarrow> callback \<Rightarrow> state \<Rightarrow> state" where
  "run_callback inp Animate s = animate inp s"
| "run_callback inp (Move f) s = move f s"

definition frame :: "tick \<Rightarrow> state \<Rightarrow> state" where
  "frame inp s =
     foldl (\<lambda>st (i, cb). run_callback inp cb st) (s\<lparr>raf_queue := []\<rparr>) (raf_queue s)"

fun step :: "state \<Rightarrow> event \<Rightarrow> state" where
  "step s (Camera_loaded g) = camera_loaded g s"
| "step s (Computer_loaded g) = computer_loaded g s"
| "step s Clicked =
     (if Click \<in> set (listeners s)
      then (case onClick s of Inl e \<Rightarrow> s | Inr s' \<Rightarrow> s')
      else s)"
| "step s (Frame inp) = frame inp s"
| "step s (Resized w h) =
     (if Resize \<in> set (listeners s) then handleResize w h s else s)"
| "step s Destroyed = destroy s"

definition run :: "state \<Rightarrow> event list \<Rightarrow> state" where
  "run s evs = foldl step s evs"

text \<open>The focus animations in flight: the closures whose \<^verbatim>\<open>move\<close> is scheduled.\<close>

fun running :: "(nat \<times> callback) list \<Rightarrow> focus list" where
  "running [] = []"
| "running ((i, Animate) # q) = running q"
| "running ((i, Move f) # q) = f # running q"


section \<open>The second component (lines 247-431)\<close>

text \<open>
  Its closure has the variables of the action except the two light targets and
  \<^verbatim>\<open>animationFrameId\<close>; the same record is used, and the functions below never read
  or write those fields, nor the disposal counters.
\<close>

subsection \<open>Camera focus animation (lines 393-413)\<close>

definition move_onMount :: "focus \<Rightarrow> state \<Rightarrow> state" where
  "move_onMount f s =
     (let f1 = f\<lparr>progress := progress f + 0.02 / duration\<rparr> in
      if progress f1 < 1 then
        (let s1 = s\<lparr>camera_position := lerpVectors (fstart f1) (fend f1) (progress f1)\<rparr>
         in snd (requestAnimationFrame (Move f1) s1))
      else
        s\<lparr>console := console s @ [[''Open portfolio:'', portfolio f1]]\<rparr>)"

definition focusOn_onMount :: "node option \<Rightarrow> string \<Rightarrow> state \<Rightarrow> error + state" where
  "focusOn_onMount obj key s =
     (case obj of
        None \<Rightarrow> Inl TypeError
      | Some m \<Rightarrow>
          (let targetPos = world_position s m;
               start = camera_position s;
               end = add_vec targetPos (0, 0.5, 2)
           in Inr (move_onMount \<lparr>fstart = start, fend = end, progress = 0, portfolio = key,
                                  focusAnimationId = None\<rparr> s)))"

subsection \<open>Click (lines 344-352)\<close>

definition onClick_onMount :: "state \<Rightarrow> error + state" where
  "onClick_onMount s =
     (case hoveredObject s of
        None \<Rightarrow> Inr s
      | Some h \<Rightarrow>
          if nullable (parent h) = uninitialised (cameraModel s)
          then focusOn_onMount (cameraModel s) ''photography'' s
          else if nullable (parent h) = uninitialised (macbookModel s)
          then focusOn_onMount (macbookModel s) ''computerscience'' s
          else Inr s)"

subsection \<open>The animation loop (lines 358-390)\<close>

text \<open>
  \<^verbatim>\<open>raycaster.intersectObjects(models.map(m => m.children[0]))\<close> throws on a model
  without children, since the ray caster reads a property of \<^verbatim>\<open>undefined\<close>. The
  exception leaves \<^verbatim>\<open>animate\<close> after the next frame was requested and the controls
  were updated, and before anything is rendered. Here \<open>hits inp\<close> is the result of this
  call.
\<close>

definition hover_stage_onMount :: "tick \<Rightarrow> state \<Rightarrow> error + state" where
  "hover_stage_onMount inp s =
     (let models = filter_Boolean [cameraModel s, macbookModel s] in
      if length models > 0 then
        (if None \<in> set (map (first_child s) models) then Inl TypeError
         else
           (case hits inp of
              target # _ \<Rightarrow>
                (if Some target \<noteq> hoveredObject s then
                   (let s1 = s\<lparr>hoveredObject := Some target\<rparr> in
                    if nullable (parent target) = uninitialised (cameraModel s1) then
                      Inr (s1\<lparr>cameraGlow := 2, computerGlow := 0\<rparr>)
                    else if nullable (parent target) = uninitialised (macbookModel s1) then
                      Inr (s1\<lparr>cameraGlow := 0, computerGlow := 2\<rparr>)
                    else Inr s1)
                 else Inr s)
            | [] \<Rightarrow> Inr (s\<lparr>hoveredObject := None, cameraGlow := 0, computerGlow := 0\<rparr>)))
      else Inr s)"

definition animate_onMount :: "tick \<Rightarrow> state \<Rightarrow> state" where
  "animate_onMount inp s =
     (let s1 = snd (requestAnimationFrame Animate s);
          s2 = s1\<lparr>camera_position := orbit inp (camera_position s1)\<rparr>
      in case hover_stage_onMount inp s2 of
           Inl e \<Rightarrow> s2
         | Inr s3 \<Rightarrow> s3\<lparr>frames := frames s3 @ [camera_position s3]\<rparr>)"

subsection \<open>Resize (lines 418-422) and cleanup (lines 424-427)\<close>

definition handleResize_onMount :: "nat \<Rightarrow> nat \<Rightarrow> state \<Rightarrow> state" where
  "handleResize_onMount clientWidth clientHeight s =
     (let s1 = s\<lparr>camera_aspect := js_div clientWidth clientHeight\<rparr>;
          s2 = s1\<lparr>projection_aspect := camera_aspect s1\<rparr>
      in s2\<lparr>renderer_size := (clientWidth, clientHeight)\<rparr>)"

definition cleanup_onMount :: "state \<Rightarrow> state" where
  "cleanup_onMount s = removeEventListener Click (removeEventListener Mousemove s)"

subsection \<open>Loading and set-up (lines 255-330, 354-355, 415, 418)\<close>

definition camera_loaded_onMount :: "gltf \<Rightarrow> state \<Rightarrow> state" where
  "camera_loaded_onMount g s =
     (let m = Node (gscene g) (Some scene) in
      s\<lparr>cameraModel := Some m,
        world_position := (world_position s)(m := (- 0.5, 0, 0)),
        first_child := (first_child s)(m := map_option (\<lambda>i. Node i (Some m)) (gfirst g)),
        scene_meshes := scene_meshes s @ gmeshes g\<rparr>)"

definition computer_loaded_onMount :: "gltf \<Rightarrow> state \<Rightarrow> state" where
  "computer_loaded_onMount g s =
     (let m = Node (gscene g) (Some scene) in
      s\<lparr>macbookModel := Some m,
        world_position := (world_position s)(m := (0.5, 0, 0)),
        first_child := (first_child s)(m := map_option (\<lambda>i. Node i (Some m)) (gfirst g)),
        scene_meshes := scene_meshes s @ gmeshes g\<rparr>)"

definition onMount :: "nat \<Rightarrow> nat \<Rightarrow> tick \<Rightarrow> state" where
  "onMount clientWidth clientHeight inp =
     (let s0 = \<lparr>camera_position = (0.5, 0, 4),
                camera_aspect = js_div clientWidth clientHeight,
                projection_aspect = js_div clientWidth clientHeight,
                renderer_size = (clientWidth, clientHeight),
                renderer_disposed = 0,
                controls_disposed = 0,
                frames = [],
                cameraGlow = 0,
                computerGlow = 0,
                cameraModel = None,
                macbookModel = None,
                hoveredObject = None,
                cameraTargetIntensity = 0,
                computerTargetIntensity = 0,
                animationFrameId = 0,
                raf_queue = [],
                next_raf = 1,
                listeners = [Mousemove, Click],
                console = [],
                scene_meshes = [\<lparr>geometry = FloorGeo, material = FloorMat\<rparr>],
                disposed = [],
                world_position = (\<lambda>n. (0, 0, 0)),
                first_child = (\<lambda>n. None)\<rparr>;
          s1 = animate_onMount inp s0
      in s1\<lparr>listeners := listeners s1 @ [Resize]\<rparr>)"

subsection \<open>The host of the second component\<close>

fun run_callback_onMount :: "tick \<Rightarrow> callback \<Rightarrow> state \<Rightarrow> state" where
  "run_callback_onMount inp Animate s = animate_onMount inp s"
| "run_callback_onMount inp (Move f) s = move_onMount f s"

definition frame_onMount :: "tick \<Rightarrow> state \<Rightarrow> state" where
  "frame_onMount inp s =
     foldl (\<lambda>st (i, cb). run_callback_onMount inp cb st) (s\<lparr>raf_queue := []\<rparr>) (raf_queue s)"

fun step_onMount :: "state \<Rightarrow> event \<Rightarrow> state" where
  "step_onMount s (Camera_loaded g) = camera_loaded_onMount g s"
| "step_onMount s (Computer_loaded g) = computer_loaded_onMount g s"
| "step_onMount s Clicked =
     (if Click \<in> set (listeners s)
      then (case onClick_onMount s of Inl e \<Rightarrow> s | Inr s' \<Rightarrow> s')
      else s)"
| "step_onMount s (Frame inp) = frame_onMount inp s"
| "step_onMount s (Resized w h) =
     (if Resize \<in> set (listeners s) then handleResize_onMount w h s else s)"
| "step_onMount s Destroyed = cleanup_onMount s"

definition run_onMount :: "state \<Rightarrow> event list \<Rightarrow> state" where
  "run_onMount s evs = foldl step_onMount s evs"

section \<open>Sample inputs\<close>

text \<open>
  A camera model with identity 10 and a computer model with identity 20, each with
  one mesh directly below it, and a mesh two levels below the camera model.
\<close>

definition camera_gltf :: gltf where
  "camera_gltf = \<lparr>gscene = 10, gfirst = Some 11,
                   gmeshes = [\<lparr>geometry = Loaded 1, material = Loaded 2\<rparr>]\<rparr>"

definition computer_gltf :: gltf where
  "computer_gltf = \<lparr>gscene = 20, gfirst = Some 21,
                     gmeshes = [\<lparr>geometry = Loaded 3, material = Loaded 4\<rparr>]\<rparr>"

definition lens :: node where
  "lens = Node 11 (Some (Node 10 (Some scene)))"

definition screen :: node where
  "screen = Node 21 (Some (Node 20 (Some scene)))"

text \<open>A tick on which the controls leave the camera alone and the ray hits nothing.\<close>

definition quiet :: tick where
  "quiet = \<lparr>orbit = (\<lambda>p. p), hits = [], now_camera = 0, now_computer = 0\<rparr>"

definition pointing_at :: "node \<Rightarrow> tick" where
  "pointing_at n = quiet\<lparr>hits := [n]\<rparr>"

text \<open>The action after one model has loaded, before the pointer has reached it.\<close>

definition camera_ready :: state where
  "camera_ready = step (threeSceneAction 800 400 quiet) (Camera_loaded camera_gltf)"

definition computer_ready :: state where
  "computer_ready = step (threeSceneAction 800 400 quiet) (Computer_loaded computer_gltf)"

text \<open>The same, with the pointer on the lens for one frame, and then a click.\<close>

definition hovering :: state where
  "hovering = step camera_ready (Frame (pointing_at lens))"

definition focusing :: state where
  "focusing = step hovering Clicked"

text \<open>
  A mesh three levels below the camera model, and the action with the pointer on it
  for one frame.
\<close>

definition glass :: node where
  "glass = Node 13 (Some (Node 12 (Some lens)))"

definition hovering_glass :: state where
  "hovering_glass = step camera_ready (Frame (pointing_at glass))"

text \<open>The action cleaned up one tick into the focus animation.\<close>

definition torn_down :: state where
  "torn_down = step focusing Destroyed"

text \<open>The second component in the same situation.\<close>

definition hovering_onMount :: state where
  "hovering_onMount =
     run_onMount (onMount 800 400 quiet) [Camera_loaded camera_gltf, Frame (pointing_at lens)]"

definition focusing_onMount :: state where
  "focusing_onMount = step_onMount hovering_onMount Clicked"

text \<open>
  A mesh below the lens, two levels below the camera model. The second component
  with the pointer on it for one frame; and the same with both models loaded, after a
  frame with the pointer on the screen of the computer.
\<close>

definition ring :: node where
  "ring = Node 12 (Some lens)"

definition hovering_ring_onMount :: state where
  "hovering_ring_onMount =
     run_onMount (onMount 800 400 quiet) [Camera_loaded camera_gltf, Frame (pointing_at ring)]"

definition leaving_screen_onMount :: state where
  "leaving_screen_onMount =
     run_onMount (onMount 800 400 quiet)
       [Camera_loaded camera_gltf, Computer_loaded computer_gltf,
        Frame (pointing_at screen), Frame (pointing_at ring)]"

text \<open>A tick on which the orbit controls place the camera at \<open>(0, 1, 2)\<close>.\<close>

definition dragging :: tick where
  "dragging = quiet\<lparr>orbit := (\<lambda>p. (0, 1, 2))\<rparr>"

section \<open>Notions of the claims\<close>

text \<open>
  The hovered object is a child or a grandchild of the model \<open>m\<close>: the test of
  \<^verbatim>\<open>onClick\<close>, on objects that exist.
\<close>

definition within_two :: "node \<Rightarrow> node \<Rightarrow> bool" where
  "within_two h m =
     (case parent h of None \<Rightarrow> False | Some p \<Rightarrow> p = m \<or> parent p = Some m)"

text \<open>The loaded model a click is for, with its portfolio key; the camera model first.\<close>

definition click_subject :: "state \<Rightarrow> (node \<times> string) option" where
  "click_subject s =
     (case hoveredObject s of
        None \<Rightarrow> None
      | Some h \<Rightarrow>
          (if (case cameraModel s of None \<Rightarrow> False | Some m \<Rightarrow> within_two h m)
           then map_option (\<lambda>m. (m, ''photography'')) (cameraModel s)
           else if (case macbookModel s of None \<Rightarrow> False | Some m \<Rightarrow> within_two h m)
           then map_option (\<lambda>m. (m, ''computerscience'')) (macbookModel s)
           else None))"

text \<open>
  The objects a node lies below in the scene graph, nearest first. A hit belongs to a
  model when the model is one of them.
\<close>

fun ancestors :: "node \<Rightarrow> node list" where
  "ancestors (Node i None) = []"
| "ancestors (Node i (Some p)) = p # ancestors p"

text \<open>Every loaded model is a child of the scene.\<close>

definition rooted :: "state \<Rightarrow> bool" where
  "rooted s =
     list_all (\<lambda>m. parent m = Some scene) (filter_Boolean [cameraModel s, macbookModel s])"

text \<open>The lights and their targets are in range.\<close>

definition lights_ok :: "state \<Rightarrow> bool" where
  "lights_ok s =
     (0 \<le> cameraGlow s \<and> 0 \<le> computerGlow s
      \<and> cameraTargetIntensity s \<in> {0, 2.5} \<and> computerTargetIntensity s \<in> {0, 2.5})"

text \<open>
  Nothing is hovered and no light is asked for before a model has loaded, and the
  two lights are never asked for together.
\<close>

definition hover_ok :: "state \<Rightarrow> bool" where
  "hover_ok s =
     ((if filter_Boolean [cameraModel s, macbookModel s] = []
       then hoveredObject s = None \<and> cameraTargetIntensity s = 0
            \<and> computerTargetIntensity s = 0
       else True)
      \<and> (cameraTargetIntensity s = 0 \<or> computerTargetIntensity s = 0))"

text \<open>What the hover stage of a tick reads and writes.\<close>

definition hover_view ::
  "state \<Rightarrow> node option \<times> real \<times> real \<times> node option \<times> node option" where
  "hover_view s =
     (hoveredObject s, cameraTargetIntensity s, computerTargetIntensity s,
      cameraModel s, macbookModel s)"

text \<open>
  The variables of a focus closure that its \<^verbatim>\<open>move\<close> reads: start, end, progress and
  portfolio key.
\<close>

type_synonym closure_vars = "vec3 \<times> vec3 \<times> real \<times> string"

definition closure_vars :: "focus \<Rightarrow> closure_vars" where
  "closure_vars f = (fstart f, fend f, progress f, portfolio f)"

text \<open>
  One tick of every focus animation in flight, on their variables: an animation whose
  advanced progress is below 1 stays in flight with that progress; every other one
  ends and gives one log entry with its key.
\<close>

fun advance_all :: "closure_vars list \<Rightarrow> closure_vars list" where
  "advance_all [] = []"
| "advance_all ((a, b, p, k) # vs) =
     (if p + 0.02 / duration < 1 then (a, b, p + 0.02 / duration, k) # advance_all vs
      else advance_all vs)"

fun signals :: "closure_vars list \<Rightarrow> string list list" where
  "signals [] = []"
| "signals ((a, b, p, k) # vs) =
     (if p + 0.02 / duration < 1 then signals vs
      else [''Open portfolio:'', k] # signals vs)"

text \<open>
  The main loop and one focus animation are scheduled, in this order, and the
  animation, from \<open>a\<close> to \<open>b\<close> for the key \<open>key\<close>, has had \<open>k + 1\<close> calls of \<^verbatim>\<open>move\<close>.
\<close>

definition in_flight :: "vec3 \<Rightarrow> vec3 \<Rightarrow> string \<Rightarrow> nat \<Rightarrow> state \<Rightarrow> bool" where
  "in_flight a b key k s =
     (map (\<lambda>(i, cb). case cb of Animate \<Rightarrow> None | Move f \<Rightarrow> Some (closure_vars f))
        (raf_queue s)
      = [None, Some (a, b, (real k + 1) / 60, key)])"

text \<open>The number of frames among the events.\<close>

fun frame_count :: "event list \<Rightarrow> nat" where
  "frame_count [] = 0"
| "frame_count (Frame inp # evs) = Suc (frame_count evs)"
| "frame_count (ev # evs) = frame_count evs"

text \<open>
  Request ids are fresh: \<^verbatim>\<open>animationFrameId\<close> and every scheduled id have been handed
  out, and the id in \<^verbatim>\<open>animationFrameId\<close> is not that of a scheduled \<^verbatim>\<open>move\<close>.
\<close>

definition ids_ok :: "state \<Rightarrow> bool" where
  "ids_ok s =
     (animationFrameId s < next_raf s
      \<and> list_all (\<lambda>(i, cb). i < next_raf s
             \<and> (case cb of Animate \<Rightarrow> True | Move f \<Rightarrow> i \<noteq> animationFrameId s))
           (raf_queue s))"

text \<open>The number of scheduled ticks of the main loop.\<close>

fun main_ticks :: "(nat \<times> callback) list \<Rightarrow> nat" where
  "main_ticks [] = 0"
| "main_ticks ((i, Animate) # q) = Suc (main_ticks q)"
| "main_ticks ((i, Move f) # q) = main_ticks q"

section \<open>Evaluation and projections of a tick\<close>

lemmas model_defs =
  animate_def hover_stage_def light_stage_def requestAnimationFrame_def smooth_def flicker_def
  move_def focusOn_def onClick_def handleResize_def destroy_def cancelAnimationFrame_def
  removeEventListener_def dispose_meshes_def camera_loaded_def computer_loaded_def
  threeSceneAction_def frame_def run_def scene_def duration_def
  nullable_def uninitialised_def optional_parent_def js_div_def
  camera_gltf_def computer_gltf_def lens_def screen_def quiet_def pointing_at_def Let_def

lemmas onMount_defs =
  animate_onMount_def hover_stage_onMount_def requestAnimationFrame_def
  move_onMount_def focusOn_onMount_def onClick_onMount_def
  camera_loaded_onMount_def onMount_def frame_onMount_def run_onMount_def scene_def
  duration_def nullable_def uninitialised_def js_div_def
  camera_gltf_def lens_def quiet_def pointing_at_def Let_def

lemma hover_stage_keeps:
  "cameraGlow (hover_stage inp s) = cameraGlow s"
  "computerGlow (hover_stage inp s) = computerGlow s"
  "camera_position (hover_stage inp s) = camera_position s"
  "frames (hover_stage inp s) = frames s"
  "console (hover_stage inp s) = console s"
  "raf_queue (hover_stage inp s) = raf_queue s"
  "next_raf (hover_stage inp s) = next_raf s"
  "listeners (hover_stage inp s) = listeners s"
  "cameraModel (hover_stage inp s) = cameraModel s"
  "macbookModel (hover_stage inp s) = macbookModel s"
  "animationFrameId (hover_stage inp s) = animationFrameId s"
  "world_position (hover_stage inp s) = world_position s"
  "scene_meshes (hover_stage inp s) = scene_meshes s"
  "disposed (hover_stage inp s) = disposed s"
  by (simp_all add: hover_stage_def Let_def split: list.split)

lemma animate_targets:
  "cameraTargetIntensity (animate inp s) = cameraTargetIntensity (hover_stage inp s)"
  "computerTargetIntensity (animate inp s) = computerTargetIntensity (hover_stage inp s)"
  "hoveredObject (animate inp s) = hoveredObject (hover_stage inp s)"
  by (simp_all add: animate_def light_stage_def requestAnimationFrame_def hover_stage_def
        Let_def split: list.split)

lemma animate_glow:
  "cameraGlow (animate inp s) =
     flicker 0.02 (now_camera inp)
       (smooth (cameraGlow s) (cameraTargetIntensity (hover_stage inp s)))"
  "computerGlow (animate inp s) =
     flicker 0.018 (now_computer inp)
       (smooth (computerGlow s) (computerTargetIntensity (hover_stage inp s)))"
  by (simp_all add: animate_def light_stage_def requestAnimationFrame_def hover_stage_def
        Let_def split: list.split)

lemma animate_frame:
  "camera_position (animate inp s) = orbit inp (camera_position s)"
  "frames (animate inp s) = frames s @ [orbit inp (camera_position s)]"
  "console (animate inp s) = console s"
  "raf_queue (animate inp s) = raf_queue s @ [(next_raf s, Animate)]"
  "next_raf (animate inp s) = next_raf s + 1"
  "animationFrameId (animate inp s) = next_raf s"
  "listeners (animate inp s) = listeners s"
  "cameraModel (animate inp s) = cameraModel s"
  "macbookModel (animate inp s) = macbookModel s"
  by (simp_all add: animate_def requestAnimationFrame_def light_stage_def Let_def
        hover_stage_keeps)

lemma move_camera:
  "camera_position (move f s) =
     (if progress f + 0.02 / duration < 1
      then lerpVectors (fstart f) (fend f) (progress f + 0.02 / duration) else fend f)"
  "frames (move f s) = frames s"
  by (simp_all add: move_def requestAnimationFrame_def Let_def)

lemma running_append: "running (q @ r) = running q @ running r"
  by (induction q rule: running.induct) simp_all

subsection \<open>The sample states, computed\<close>

lemma action_started:
  "threeSceneAction 800 400 quiet =
     \<lparr>camera_position = (0.5, 0, 1), camera_aspect = Num 2, projection_aspect = Num 2,
      renderer_size = (800, 400), renderer_disposed = 0, controls_disposed = 0,
      frames = [(0.5, 0, 1)], cameraGlow = 0, computerGlow = 0,
      cameraModel = None, macbookModel = None, hoveredObject = None,
      cameraTargetIntensity = 0, computerTargetIntensity = 0,
      animationFrameId = 1, raf_queue = [(1, Animate)], next_raf = 2,
      listeners = [Mousemove, Click, Resize], console = [],
      scene_meshes = [\<lparr>geometry = FloorGeo, material = FloorMat\<rparr>],
      disposed = [], world_position = (\<lambda>n. (0, 0, 0)), first_child = (\<lambda>n. None)\<rparr>"
  by (simp add: model_defs)

lemma camera_ready_state:
  "camera_ready =
     \<lparr>camera_position = (0.5, 0, 1), camera_aspect = Num 2, projection_aspect = Num 2,
      renderer_size = (800, 400), renderer_disposed = 0, controls_disposed = 0,
      frames = [(0.5, 0, 1)], cameraGlow = 0, computerGlow = 0,
      cameraModel = Some (Node 10 (Some scene)), macbookModel = None, hoveredObject = None,
      cameraTargetIntensity = 0, computerTargetIntensity = 0,
      animationFrameId = 1, raf_queue = [(1, Animate)], next_raf = 2,
      listeners = [Mousemove, Click, Resize], console = [],
      scene_meshes = [\<lparr>geometry = FloorGeo, material = FloorMat\<rparr>,
                      \<lparr>geometry = Loaded 1, material = Loaded 2\<rparr>],
      disposed = [],
      world_position = (\<lambda>n. (0, 0, 0))(Node 10 (Some scene) := (- 0.3, 0, 0)),
      first_child = (\<lambda>n. None)\<rparr>"
  by (simp add: camera_ready_def action_started camera_loaded_def camera_gltf_def Let_def)

lemma computer_ready_state:
  "computer_ready =
     \<lparr>camera_position = (0.5, 0, 1), camera_aspect = Num 2, projection_aspect = Num 2,
      renderer_size = (800, 400), renderer_disposed = 0, controls_disposed = 0,
      frames = [(0.5, 0, 1)], cameraGlow = 0, computerGlow = 0,
      cameraModel = None, macbookModel = Some (Node 20 (Some scene)), hoveredObject = None,
      cameraTargetIntensity = 0, computerTargetIntensity = 0,
      animationFrameId = 1, raf_queue = [(1, Animate)], next_raf = 2,
      listeners = [Mousemove, Click, Resize], console = [],
      scene_meshes = [\<lparr>geometry = FloorGeo, material = FloorMat\<rparr>,
                      \<lparr>geometry = Loaded 3, material = Loaded 4\<rparr>],
      disposed = [],
      world_position = (\<lambda>n. (0, 0, 0))(Node 20 (Some scene) := (0.3, 0, 0)),
      first_child = (\<lambda>n. None)\<rparr>"
  by (simp add: computer_ready_def action_started computer_loaded_def computer_gltf_def Let_def)

lemma hovering_state:
  "hovering =
     \<lparr>camera_position = (0.5, 0, 1), camera_aspect = Num 2, projection_aspect = Num 2,
      renderer_size = (800, 400), renderer_disposed = 0, controls_disposed = 0,
      frames = [(0.5, 0, 1), (0.5, 0, 1)], cameraGlow = 0.2, computerGlow = 0,
      cameraModel = Some (Node 10 (Some scene)), macbookModel = None,
      hoveredObject = Some lens,
      cameraTargetIntensity = 2.5, computerTargetIntensity = 0,
      animationFrameId = 2, raf_queue = [(2, Animate)], next_raf = 3,
      listeners = [Mousemove, Click, Resize], console = [],
      scene_meshes = [\<lparr>geometry = FloorGeo, material = FloorMat\<rparr>,
                      \<lparr>geometry = Loaded 1, material = Loaded 2\<rparr>],
      disposed = [],
      world_position = (\<lambda>n. (0, 0, 0))(Node 10 (Some scene) := (- 0.3, 0, 0)),
      first_child = (\<lambda>n. None)\<rparr>"
  by (simp add: hovering_def camera_ready_state frame_def animate_def hover_stage_def
        light_stage_def requestAnimationFrame_def smooth_def flicker_def nullable_def
        uninitialised_def lens_def pointing_at_def quiet_def Let_def)

lemma focusing_state:
  "focusing =
     \<lparr>camera_position = (73 / 150, 1 / 120, 61 / 60),
      camera_aspect = Num 2, projection_aspect = Num 2,
      renderer_size = (800, 400), renderer_disposed = 0, controls_disposed = 0,
      frames = [(0.5, 0, 1), (0.5, 0, 1)], cameraGlow = 0.2, computerGlow = 0,
      cameraModel = Some (Node 10 (Some scene)), macbookModel = None,
      hoveredObject = Some lens,
      cameraTargetIntensity = 2.5, computerTargetIntensity = 0,
      animationFrameId = 2,
      raf_queue = [(2, Animate),
                   (3, Move \<lparr>fstart = (0.5, 0, 1), fend = (- 0.3, 0.5, 2),
                            progress = 1 / 60, portfolio = ''photography'',
                            focusAnimationId = Some 3\<rparr>)],
      next_raf = 4,
      listeners = [Mousemove, Click, Resize], console = [],
      scene_meshes = [\<lparr>geometry = FloorGeo, material = FloorMat\<rparr>,
                      \<lparr>geometry = Loaded 1, material = Loaded 2\<rparr>],
      disposed = [],
      world_position = (\<lambda>n. (0, 0, 0))(Node 10 (Some scene) := (- 0.3, 0, 0)),
      first_child = (\<lambda>n. None)\<rparr>"
  by (simp add: focusing_def hovering_state onClick_def focusOn_def move_def
        requestAnimationFrame_def nullable_def uninitialised_def optional_parent_def
        lens_def duration_def Let_def)

section \<open>Light smoothing\<close>

text \<open>Over exact reals one update multiplies the distance to the target by \<open>0.92\<close>.\<close>

lemma smooth_distance: "smooth c t - t = (c - t) * 0.92"
  by (simp add: smooth_def field_simps)

lemma smooth_contracts: "c \<noteq> t \<Longrightarrow> \<bar>smooth c t - t\<bar> < \<bar>c - t\<bar>"
  unfolding smooth_distance abs_mult by simp

subsection \<open>Rounding to the nearest double\<close>

text \<open>
  \<open>round_even\<close> gives a nearest integer, so \<open>double x\<close> is at least as near to \<open>x\<close> as
  any multiple of the unit in the last place of \<open>x\<close>. The numbers that rounding leaves
  unchanged are the doubles, and \<open>double x\<close> is at least as near to \<open>x\<close> as any of them.
  Hence rounding keeps a number between two doubles between them.
\<close>

lemma round_even_nearest: "\<bar>of_int (round_even y) - y\<bar> \<le> \<bar>of_int n - y\<bar>"
proof -
  define f :: real where "f = of_int \<lfloor>y\<rfloor>"
  define r :: real where "r = of_int (round_even y)"
  define m :: real where "m = of_int n"
  have f: "f \<le> y" "y < f + 1"
    unfolding f_def by linarith+
  have r: "(r = f \<and> y - f \<le> 1 / 2) \<or> (r = f + 1 \<and> 1 / 2 \<le> y - f)"
    unfolding r_def f_def round_even_def by simp
  have "n \<le> \<lfloor>y\<rfloor> \<or> \<lfloor>y\<rfloor> + 1 \<le> n" by linarith
  then have m: "m \<le> f \<or> f + 1 \<le> m"
    unfolding m_def f_def by (metis of_int_1 of_int_add of_int_le_iff)
  have "\<bar>r - y\<bar> \<le> \<bar>m - y\<bar>"
    using f r m by (auto simp add: abs_if)
  then show ?thesis
    unfolding r_def m_def .
qed

lemma round_even_int: "round_even (of_int n) = n"
  by (simp add: round_even_def)

lemma round_even_minus: "round_even (- y) = - round_even y"
proof (cases "y = of_int \<lfloor>y\<rfloor>")
  case True
  then obtain n where "y = of_int n" ..
  then have "round_even (- y) = round_even (of_int (- n))" by simp
  then show ?thesis
    unfolding round_even_int using \<open>y = of_int n\<close> by (simp add: round_even_int)
next
  case False
  then have c: "\<lceil>y\<rceil> = \<lfloor>y\<rfloor> + 1"
    by (simp add: ceiling_altdef)
  have f: "\<lfloor>- y\<rfloor> = - \<lfloor>y\<rfloor> - 1"
    using c by (simp add: floor_minus)
  show ?thesis
    unfolding round_even_def f using False by (auto simp add: field_simps)
qed

lemma ulp_pos: "0 < ulp x"
  by (simp add: ulp_def)

lemma double_0: "double 0 = 0"
  by (simp add: double_def round_even_def)

lemma binade_minus: "binade (- x) = binade x"
  by (simp add: binade_def)

lemma ulp_minus: "ulp (- x) = ulp x"
  by (simp add: ulp_def binade_minus)

lemma double_minus: "double (- x) = - double x"
  by (simp add: double_def ulp_minus round_even_minus)

lemma double_multiple: "\<bar>double x - x\<bar> \<le> \<bar>of_int n * ulp x - x\<bar>"
proof -
  define u where "u = ulp x"
  have u: "0 < u" unfolding u_def by (rule ulp_pos)
  have e: "\<bar>of_int k * u - x\<bar> = \<bar>of_int k - x / u\<bar> * u" for k :: int
  proof -
    have "of_int k * u - x = (of_int k - x / u) * u"
      using u by (simp add: left_diff_distrib)
    then show ?thesis
      using u by (simp add: abs_mult)
  qed
  have "\<bar>double x - x\<bar> = \<bar>of_int (round_even (x / u)) * u - x\<bar>"
    by (simp add: double_def u_def)
  also have "\<dots> = \<bar>of_int (round_even (x / u)) - x / u\<bar> * u"
    by (rule e)
  also have "\<dots> \<le> \<bar>of_int n - x / u\<bar> * u"
    using u round_even_nearest [of "x / u" n] by (simp add: mult_right_mono)
  also have "\<dots> = \<bar>of_int n * u - x\<bar>"
    by (rule e [symmetric])
  finally show ?thesis unfolding u_def .
qed

lemma ulp_scale:
  assumes "binade y \<le> binade z"
  shows "ulp z = of_int (2 ^ nat (binade z - binade y)) * ulp y"
proof -
  have "of_int (binade z) - 52 = real (nat (binade z - binade y)) + (of_int (binade y) - 52)"
    using assms by simp
  then have "ulp z = 2 powr real (nat (binade z - binade y)) * ulp y"
    unfolding ulp_def by (simp only: powr_add)
  then show ?thesis
    by (simp add: powr_realpow)
qed

lemma fixed_multiple:
  assumes "double z = z" "binade y \<le> binade z"
  shows "\<exists>n. z = of_int n * ulp y"
proof -
  have "z = of_int (round_even (z / ulp z)) * ulp z"
    using assms(1) by (simp add: double_def)
  also have "\<dots> = of_int (round_even (z / ulp z) * 2 ^ nat (binade z - binade y)) * ulp y"
    by (simp add: ulp_scale [OF assms(2)])
  finally show ?thesis by blast
qed

lemma binade_least: "- 1022 \<le> binade x"
  by (simp add: binade_def)

lemma binade_lower:
  assumes "- 1022 < binade y"
  shows "2 powr of_int (binade y) \<le> \<bar>y\<bar>"
proof -
  have y: "y \<noteq> 0"
    using assms by (auto simp add: binade_def)
  then have "binade y = \<lfloor>log 2 \<bar>y\<bar>\<rfloor>"
    using assms unfolding binade_def by (simp split: if_splits)
  then have "of_int (binade y) \<le> log 2 \<bar>y\<bar>"
    by simp
  then have "2 powr of_int (binade y) \<le> 2 powr log 2 \<bar>y\<bar>"
    by (simp only: powr_le_cancel_iff)
  then show ?thesis using y by simp
qed

lemma binade_upper: "\<bar>z\<bar> < 2 powr (of_int (binade z) + 1)"
proof (cases "z = 0")
  case True
  then show ?thesis by simp
next
  case False
  then have "\<lfloor>log 2 \<bar>z\<bar>\<rfloor> \<le> binade z"
    unfolding binade_def by simp
  then have "log 2 \<bar>z\<bar> < of_int (binade z) + 1"
    by linarith
  then have "2 powr log 2 \<bar>z\<bar> < 2 powr (of_int (binade z) + 1)"
    by (simp only: powr_less_cancel_iff)
  then show ?thesis using False by simp
qed

lemma double_nearest:
  assumes "double z = z"
  shows "\<bar>double y - y\<bar> \<le> \<bar>z - y\<bar>"
proof (cases "binade y \<le> binade z")
  case True
  from fixed_multiple [OF assms True] obtain n where "z = of_int n * ulp y" ..
  then show ?thesis
    using double_multiple [of y n] by simp
next
  case False
  then have lt: "binade z + 1 \<le> binade y" by simp
  with binade_least [of z] have n: "- 1022 < binade y" by simp
  define b :: real where "b = 2 powr of_int (binade y)"
  have b: "b \<le> \<bar>y\<bar>"
    unfolding b_def by (rule binade_lower [OF n])
  have "of_int (binade z) + 1 \<le> (of_int (binade y) :: real)"
    using lt by (metis of_int_1 of_int_add of_int_le_iff)
  then have "2 powr (of_int (binade z) + 1) \<le> (2::real) powr of_int (binade y)"
    by (simp only: powr_le_cancel_iff)
  with binade_upper [of z] have zb: "\<bar>z\<bar> \<le> b"
    unfolding b_def by linarith
  have "b = 2 powr real 52 * ulp y"
    unfolding b_def ulp_def by (simp only: powr_add [symmetric]) simp
  then have m: "b = of_int (2 ^ 52) * ulp y"
    by (simp only: powr_realpow) simp
  have "\<bar>double y - y\<bar> \<le> \<bar>b - y\<bar> \<and> \<bar>double y - y\<bar> \<le> \<bar>- b - y\<bar>"
    using double_multiple [of y "2 ^ 52"] double_multiple [of y "- (2 ^ 52)"]
    unfolding m by simp
  then show ?thesis
    using b zb by (auto simp add: abs_if split: if_splits)
qed

lemma double_between:
  assumes "double a = a" "double b = b" "a \<le> x" "x \<le> b"
  shows "a \<le> double x \<and> double x \<le> b"
  using double_nearest [OF assms(1), of x] double_nearest [OF assms(2), of x] assms(3,4)
  by (auto simp add: abs_if split: if_splits)

lemma double_mono_lower: "double a = a \<Longrightarrow> a \<le> x \<Longrightarrow> a \<le> double x"
  using double_nearest [of a x] by (auto simp add: abs_if split: if_splits)

lemma double_mono_upper: "double b = b \<Longrightarrow> x \<le> b \<Longrightarrow> double x \<le> b"
  using double_nearest [of b x] by (auto simp add: abs_if split: if_splits)

lemma double_sign:
  "0 \<le> x \<Longrightarrow> 0 \<le> double x \<and> double x \<le> 2 * x"
  "x \<le> 0 \<Longrightarrow> 2 * x \<le> double x \<and> double x \<le> 0"
  using double_nearest [OF double_0, of x]
  by (auto simp add: abs_if split: if_splits)

text \<open>
  One update in doubles leaves the intensity between its old value and the target,
  for all doubles.
\<close>

lemma smooth_double_between:
  assumes "double c = c" "double t = t"
  shows "c \<le> t \<Longrightarrow> c \<le> smooth_double c t \<and> smooth_double c t \<le> t"
    and "t \<le> c \<Longrightarrow> t \<le> smooth_double c t \<and> smooth_double c t \<le> c"
proof -
  define k where "k = double 0.08"
  define d where "d = double (t - c)"
  define m where "m = double (d * k)"
  have k: "0 \<le> k" "k \<le> 1 / 4"
    using double_sign(1) [of "0.08"] unfolding k_def by simp_all
  have s: "smooth_double c t = double (c + m)"
    by (simp add: smooth_double_def m_def d_def k_def)
  show "c \<le> smooth_double c t \<and> smooth_double c t \<le> t" if "c \<le> t"
  proof -
    have d: "0 \<le> d" "d \<le> 2 * (t - c)"
      using double_sign(1) [of "t - c"] that unfolding d_def by simp_all
    have "0 \<le> d * k" using d k by simp
    then have m: "0 \<le> m" "m \<le> 2 * (d * k)"
      using double_sign(1) [of "d * k"] unfolding m_def by simp_all
    have "d * k \<le> d * (1 / 4)"
      using d(1) k(2) by (rule mult_left_mono [rotated])
    with m d have "c \<le> c + m" "c + m \<le> t" by simp_all
    from double_between [OF assms this] show ?thesis
      unfolding s .
  qed
  show "t \<le> smooth_double c t \<and> smooth_double c t \<le> c" if "t \<le> c"
  proof -
    have d: "2 * (t - c) \<le> d" "d \<le> 0"
      using double_sign(2) [of "t - c"] that unfolding d_def by simp_all
    have "d * k \<le> 0" using d k by (simp add: mult_nonpos_nonneg)
    then have m: "2 * (d * k) \<le> m" "m \<le> 0"
      using double_sign(2) [of "d * k"] unfolding m_def by simp_all
    have "(- d) * k \<le> (- d) * (1 / 4)"
      using k(2) by (rule mult_left_mono) (use d in simp)
    with m d have "t \<le> c + m" "c + m \<le> c" by simp_all
    from double_between [OF assms(2,1) this] show ?thesis
      unfolding s .
  qed
qed

subsection \<open>The neighbours of a double\<close>

text \<open>
  A double is a whole multiple of its unit in the last place, of fewer than 53 bits.
  One unit below a positive double and one unit above a double that is not negative
  there is a double again. So an increment of at least one unit changes the
  intensity it is added to.
\<close>

lemma binade_eq:
  assumes "2 powr of_int k \<le> \<bar>x\<bar>" "\<bar>x\<bar> < 2 powr (of_int k + 1)" "- 1022 \<le> k"
  shows "binade x = k"
proof -
  have "0 < \<bar>x\<bar>"
    by (rule less_le_trans [OF _ assms(1)]) simp
  then have x: "x \<noteq> 0" by simp
  then have "\<lfloor>log 2 \<bar>x\<bar>\<rfloor> = k"
    using assms(1,2) by (simp add: floor_log_eq_powr_iff)
  then show ?thesis
    using assms(3) x by (simp add: binade_def)
qed

lemma binade_subnormal:
  assumes "\<bar>x\<bar> < 2 powr (- 1021)"
  shows "binade x = - 1022"
proof (cases "x = 0")
  case True
  then show ?thesis by (simp add: binade_def)
next
  case False
  then have "log 2 \<bar>x\<bar> < - 1021"
    using assms by (simp add: log_less_iff)
  then have "\<lfloor>log 2 \<bar>x\<bar>\<rfloor> \<le> - 1022"
    by linarith
  then show ?thesis
    using False by (simp add: binade_def)
qed


lemma double_fixed: "x = of_int j * ulp x \<Longrightarrow> double x = x"
proof -
  assume x: "x = of_int j * ulp x"
  have "x / ulp x = of_int j"
    using ulp_pos [of x] by (subst x) simp
  then show ?thesis
    unfolding double_def using x by (simp add: round_even_int)
qed

lemma binade_powers:
  "2 powr (of_int (binade c) + 2) = 2 ^ 54 * ulp c"
  "2 powr (of_int (binade c) + 1) = 2 ^ 53 * ulp c"
  "2 powr of_int (binade c) = 2 ^ 52 * ulp c"
  "2 powr (of_int (binade c) - 1) = 2 ^ 51 * ulp c"
proof -
  have p: "y = x - 52 + real n \<Longrightarrow> 2 powr y = 2 ^ n * 2 powr (x - 52)"
    for x y :: real and n :: nat
    by (simp add: powr_add powr_realpow mult.commute)
  show "2 powr (of_int (binade c) + 2) = 2 ^ 54 * ulp c"
    unfolding ulp_def by (rule p) simp
  show "2 powr (of_int (binade c) + 1) = 2 ^ 53 * ulp c"
    unfolding ulp_def by (rule p) simp
  show "2 powr of_int (binade c) = 2 ^ 52 * ulp c"
    unfolding ulp_def by (rule p) simp
  show "2 powr (of_int (binade c) - 1) = 2 ^ 51 * ulp c"
    unfolding ulp_def by (rule p) simp
qed

lemma ulp_shift:
  "binade z = binade c \<Longrightarrow> ulp z = ulp c"
  "binade z = binade c + 1 \<Longrightarrow> ulp z = 2 * ulp c"
  "binade z = binade c - 1 \<Longrightarrow> 2 * ulp z = ulp c"
proof -
  show "binade z = binade c \<Longrightarrow> ulp z = ulp c"
    by (simp add: ulp_def)
  have p: "2 powr (x + 1) = 2 * 2 powr x" for x :: real
    by (simp add: powr_add)
  show "ulp z = 2 * ulp c" if "binade z = binade c + 1"
  proof -
    have "of_int (binade z) - 52 = of_int (binade c) - 52 + (1::real)"
      using that by simp
    then show ?thesis
      unfolding ulp_def by (simp only: p)
  qed
  show "2 * ulp z = ulp c" if "binade z = binade c - 1"
  proof -
    have "of_int (binade c) - 52 = of_int (binade z) - 52 + (1::real)"
      using that by simp
    then show ?thesis
      unfolding ulp_def by (simp only: p)
  qed
qed

lemma double_significand:
  assumes "double c = c"
  shows "\<exists>n. c = of_int n * ulp c \<and> \<bar>of_int n :: real\<bar> < 2 ^ 53
    \<and> (- 1022 < binade c \<longrightarrow> 2 ^ 52 \<le> \<bar>of_int n :: real\<bar>)"
proof -
  define n where "n = round_even (c / ulp c)"
  have c: "c = of_int n * ulp c"
    using assms by (simp add: double_def n_def)
  have u: "0 < ulp c" by (rule ulp_pos)
  have a: "\<bar>c\<bar> = \<bar>of_int n :: real\<bar> * ulp c"
    using u by (subst c) (simp add: abs_mult)
  have "\<bar>of_int n :: real\<bar> * ulp c < 2 ^ 53 * ulp c"
    using binade_upper [of c] unfolding binade_powers a .
  then have 1: "\<bar>of_int n :: real\<bar> < 2 ^ 53"
    using u by simp
  have 2: "2 ^ 52 \<le> \<bar>of_int n :: real\<bar>" if "- 1022 < binade c"
  proof -
    have "2 ^ 52 * ulp c \<le> \<bar>of_int n :: real\<bar> * ulp c"
      using binade_lower [OF that] unfolding binade_powers a .
    then show ?thesis using u by simp
  qed
  from c 1 2 show ?thesis by blast
qed


lemma double_pred:
  assumes "double c = c" "0 < c"
  shows "double (c - ulp c) = c - ulp c"
proof -
  from double_significand [OF assms(1)]
  obtain n where c: "c = of_int n * ulp c" and up: "\<bar>of_int n :: real\<bar> < 2 ^ 53"
    and low: "- 1022 < binade c \<Longrightarrow> 2 ^ 52 \<le> \<bar>of_int n :: real\<bar>"
    by blast
  define u where "u = ulp c"
  have u: "0 < u" unfolding u_def by (rule ulp_pos)
  have cu: "c = of_int n * u" unfolding u_def by (rule c)
  define z where "z = c - u"
  have z: "z = of_int (n - 1) * u"
    unfolding z_def by (subst cu) (simp add: algebra_simps)
  have "0 < real_of_int n * u" using assms(2) cu by simp
  then have "0 < real_of_int n" using u by (simp add: zero_less_mult_iff)
  then have n: "1 \<le> n" by simp
  have zc: "0 \<le> z" "z < c"
    unfolding z using n u by (simp_all add: cu)
  have "double z = z"
  proof (cases "binade c = - 1022")
    case True
    have "\<bar>c\<bar> < 2 powr (- 1021)"
      using binade_upper [of c] True by simp
    then have "\<bar>z\<bar> < 2 powr (- 1021)"
      using zc by simp
    then have "binade z = binade c"
      using True by (simp add: binade_subnormal)
    then have "ulp z = u"
      unfolding u_def by (rule ulp_shift)
    then have "z = of_int (n - 1) * ulp z"
      using z by simp
    then show ?thesis by (rule double_fixed)
  next
    case False
    with binade_least [of c] have b: "- 1022 < binade c" by simp
    from low [OF this] n have l: "2 ^ 52 \<le> (of_int n :: real)" by simp
    show ?thesis
    proof (cases "(of_int n :: real) = 2 ^ 52")
      case True
      have zz: "z = (2 ^ 52 - 1) * u"
        unfolding z using True by simp
      have "2 powr of_int (binade c - 1) \<le> \<bar>z\<bar>"
        unfolding zz using u by (simp add: binade_powers u_def [symmetric])
      moreover have "\<bar>z\<bar> < 2 powr (of_int (binade c - 1) + 1)"
        unfolding zz using u by (simp add: binade_powers u_def [symmetric])
      moreover have "- 1022 \<le> binade c - 1"
        using b by simp
      ultimately have "binade z = binade c - 1"
        by (rule binade_eq)
      then have h: "2 * ulp z = u"
        unfolding u_def by (rule ulp_shift)
      have "z = of_int (n - 1) * (2 * ulp z)"
        unfolding h by (rule z)
      also have "\<dots> = of_int (2 * (n - 1)) * ulp z"
        by (simp add: algebra_simps)
      finally show ?thesis by (rule double_fixed)
    next
      case False
      with l have "2 ^ 52 < (of_int n :: real)" by simp
      then have "2 ^ 52 < n" by (metis of_int_less_iff of_int_numeral of_int_power)
      then have "2 ^ 52 \<le> n - 1" by simp
      then have "(2 ^ 52 :: real) \<le> of_int (n - 1)"
        by (metis of_int_le_iff of_int_numeral of_int_power)
      then have "2 ^ 52 * u \<le> z"
        unfolding z using u by simp
      then have "2 powr of_int (binade c) \<le> \<bar>z\<bar>"
        using zc by (simp add: binade_powers u_def [symmetric])
      moreover have "\<bar>z\<bar> < 2 powr (of_int (binade c) + 1)"
        using zc binade_upper [of c] assms(2) by simp
      ultimately have "binade z = binade c"
        using binade_least by (rule binade_eq)
      then have "ulp z = u"
        unfolding u_def by (rule ulp_shift)
      then have "z = of_int (n - 1) * ulp z"
        using z by simp
      then show ?thesis by (rule double_fixed)
    qed
  qed
  then show ?thesis
    unfolding z_def u_def .
qed


lemma double_succ:
  assumes "double c = c" "0 \<le> c"
  shows "double (c + ulp c) = c + ulp c"
proof -
  from double_significand [OF assms(1)]
  obtain n where c: "c = of_int n * ulp c" and up: "\<bar>of_int n :: real\<bar> < 2 ^ 53"
    by blast
  define u where "u = ulp c"
  have u: "0 < u" unfolding u_def by (rule ulp_pos)
  have cu: "c = of_int n * u" unfolding u_def by (rule c)
  define z where "z = c + u"
  have z: "z = of_int (n + 1) * u"
    unfolding z_def by (subst cu) (simp add: algebra_simps)
  have "0 \<le> real_of_int n * u" using assms(2) cu by simp
  then have "0 \<le> real_of_int n" using u by (simp add: zero_le_mult_iff)
  then have n: "0 \<le> n" by simp
  have zc: "0 < z" "c < z"
    unfolding z_def using assms(2) u by simp_all
  have "n < 2 ^ 53"
    using up by (metis abs_of_nonneg n of_int_0_le_iff of_int_less_iff of_int_numeral of_int_power)
  then have "n + 1 \<le> 2 ^ 53" by simp
  then have le: "(of_int (n + 1) :: real) \<le> 2 ^ 53"
    by (metis of_int_le_iff of_int_numeral of_int_power)
  have "double z = z"
  proof (cases "(of_int (n + 1) :: real) = 2 ^ 53")
    case True
    have zz: "z = 2 ^ 53 * u"
      unfolding z using True by simp
    have "2 powr of_int (binade c + 1) \<le> \<bar>z\<bar>"
      unfolding zz using u by (simp add: binade_powers u_def [symmetric])
    moreover have "\<bar>z\<bar> < 2 powr (of_int (binade c + 1) + 1)"
    proof -
      have e: "of_int (binade c + 1) + 1 = of_int (binade c) + (2::real)" by simp
      show ?thesis
        unfolding e binade_powers zz u_def [symmetric] using u by simp
    qed
    moreover have "- 1022 \<le> binade c + 1"
      using binade_least [of c] by simp
    ultimately have "binade z = binade c + 1"
      by (rule binade_eq)
    then have h: "ulp z = 2 * u"
      unfolding u_def by (rule ulp_shift)
    have "z = of_int (2 ^ 52) * (2 * u)"
      unfolding zz by simp
    also have "2 * u = ulp z"
      by (rule h [symmetric])
    finally show ?thesis by (rule double_fixed)
  next
    case False
    with le have "(of_int (n + 1) :: real) < 2 ^ 53" by simp
    then have "z < 2 ^ 53 * u"
      unfolding z using u by simp
    then have zu: "\<bar>z\<bar> < 2 powr (of_int (binade c) + 1)"
      using zc by (simp add: binade_powers u_def [symmetric])
    have "binade z = binade c"
    proof (cases "binade c = - 1022")
      case True
      then show ?thesis
        using zu by (simp add: binade_subnormal)
    next
      case False
      with binade_least [of c] have "- 1022 < binade c" by simp
      then have "2 powr of_int (binade c) \<le> \<bar>c\<bar>"
        by (rule binade_lower)
      then have "2 powr of_int (binade c) \<le> \<bar>z\<bar>"
        using zc assms(2) by simp
      then show ?thesis
        using zu binade_least by (rule binade_eq)
    qed
    then have "ulp z = u"
      unfolding u_def by (rule ulp_shift)
    then have "z = of_int (n + 1) * ulp z"
      using z by simp
    then show ?thesis by (rule double_fixed)
  qed
  then show ?thesis
    unfolding z_def u_def .
qed

lemma step_up:
  assumes "double c = c" "0 \<le> c" "ulp c \<le> m"
  shows "c < double (c + m)"
proof -
  have "c + ulp c \<le> double (c + m)"
    using double_succ [OF assms(1,2)] by (rule double_mono_lower) (use assms(3) in simp)
  with ulp_pos [of c] show ?thesis by simp
qed

lemma step_down:
  assumes "double c = c" "0 < c" "m \<le> - ulp c"
  shows "double (c + m) < c"
proof -
  have "double (c + m) \<le> c - ulp c"
    using double_pred [OF assms(1,2)] by (rule double_mono_upper) (use assms(3) in simp)
  with ulp_pos [of c] show ?thesis by simp
qed

lemma double_pow2:
  assumes "- 1074 \<le> j"
  shows "double (2 powr of_int j) = 2 powr of_int j"
proof (cases "- 1022 \<le> j")
  case True
  have "binade (2 powr of_int j) = j"
    by (rule binade_eq) (use True in simp_all)
  then have "2 powr of_int j = 2 ^ 52 * ulp (2 powr of_int j)"
    using binade_powers(3) [of "2 powr of_int j"] by simp
  then have "2 powr of_int j = of_int (2 ^ 52) * ulp (2 powr of_int j)"
    by simp
  then show ?thesis by (rule double_fixed)
next
  case False
  then have "real_of_int j < - 1021" by simp
  then have "\<bar>2 powr real_of_int j\<bar> < 2 powr (- 1021)"
    by simp
  then have "binade (2 powr of_int j) = - 1022"
    by (rule binade_subnormal)
  then have u: "ulp (2 powr of_int j) = 2 powr (- 1074)"
    by (simp add: ulp_def)
  have "of_int j = real (nat (j + 1074)) + (- 1074)"
    using assms by simp
  then have "2 powr of_int j = 2 powr real (nat (j + 1074)) * 2 powr (- 1074)"
    by (simp only: powr_add)
  then have "2 powr of_int j = of_int (2 ^ nat (j + 1074)) * ulp (2 powr of_int j)"
    unfolding u by (simp add: powr_realpow)
  then show ?thesis by (rule double_fixed)
qed

lemma double_ulp: "double (ulp x) = ulp x"
proof -
  have "- 1074 \<le> binade x - 52"
    using binade_least [of x] by simp
  from double_pow2 [OF this] show ?thesis
    by (simp add: ulp_def)
qed

lemma ulp_below_two: "\<bar>c\<bar> < 2 \<Longrightarrow> ulp c \<le> 1 / 2 ^ 52"
proof -
  assume a: "\<bar>c\<bar> < 2"
  have "binade c \<le> 0"
  proof (cases "c = 0")
    case True
    then show ?thesis by (simp add: binade_def)
  next
    case False
    then have "log 2 \<bar>c\<bar> < 1"
      using a by (simp add: log_less_iff)
    then have "\<lfloor>log 2 \<bar>c\<bar>\<rfloor> \<le> 0" by linarith
    then show ?thesis using False by (simp add: binade_def)
  qed
  then have "of_int (binade c) - 52 \<le> (- 52 :: real)" by simp
  then have "ulp c \<le> 2 powr (- 52)"
    unfolding ulp_def by (simp only: powr_le_cancel_iff)
  then show ?thesis by (simp add: powr_neg_numeral)
qed

subsection \<open>Rounding of given numbers\<close>

lemma two_powr_neg: "(2::real) powr (- real m) = 1 / 2 ^ m"
  by (simp only: powr_minus powr_realpow) (simp add: divide_inverse)

lemma ulp_subnormal:
  assumes "\<bar>x\<bar> < 1 / 2 ^ 1021"
  shows "ulp x = 1 / 2 ^ 1074"
proof -
  have "\<bar>x\<bar> < 2 powr (- real 1021)"
    using assms by (simp only: two_powr_neg)
  then have "binade x = - 1022"
    by (simp add: binade_subnormal)
  then have "ulp x = 2 powr (- real 1074)"
    by (simp add: ulp_def)
  then show ?thesis
    by (simp only: two_powr_neg)
qed

lemma ulp_below_one:
  assumes "1 / 2 ^ n \<le> \<bar>x\<bar>" "\<bar>x\<bar> < 2 / 2 ^ n" "n \<le> 1022"
  shows "ulp x = 1 / 2 ^ (n + 52)"
proof -
  have "real_of_int (- int n) = - real n" by simp
  then have a: "2 powr of_int (- int n) \<le> \<bar>x\<bar>"
    using assms(1) by (simp only: two_powr_neg)
  have "(2::real) powr (of_int (- int n) + 1) = 2 powr (- real n) * 2 powr 1"
    by (simp only: powr_add [symmetric]) simp
  then have b: "\<bar>x\<bar> < 2 powr (of_int (- int n) + 1)"
    using assms(2) by (simp add: two_powr_neg)
  have "binade x = - int n"
    using a b by (rule binade_eq) (use assms(3) in simp)
  then have "ulp x = 2 powr (- real (n + 52))"
    by (simp add: ulp_def)
  then show ?thesis
    by (simp only: two_powr_neg)
qed

lemma ulp_above_one:
  assumes "2 ^ n \<le> \<bar>x\<bar>" "\<bar>x\<bar> < 2 * 2 ^ n"
  shows "ulp x = 2 ^ n / 2 ^ 52"
proof -
  have a: "2 powr of_int (int n) \<le> \<bar>x\<bar>"
    using assms(1) by (simp add: powr_realpow)
  have "(2::real) powr (of_int (int n) + 1) = 2 powr (real n) * 2 powr 1"
    by (simp only: powr_add [symmetric]) simp
  then have b: "\<bar>x\<bar> < 2 powr (of_int (int n) + 1)"
    using assms(2) by (simp add: powr_realpow)
  have "binade x = int n"
    using a b by (rule binade_eq) simp
  then have "ulp x = 2 powr (real n) * 2 powr (- real 52)"
    by (simp only: ulp_def powr_add [symmetric]) simp
  then show ?thesis
    by (simp only: two_powr_neg powr_realpow) simp
qed

lemma double_subnormal:
  "\<bar>x\<bar> < 1 / 2 ^ 1021 \<Longrightarrow> double x = of_int (round_even (x * 2 ^ 1074)) / 2 ^ 1074"
  by (simp add: double_def ulp_subnormal)

lemma double_below_one:
  "1 / 2 ^ n \<le> \<bar>x\<bar> \<Longrightarrow> \<bar>x\<bar> < 2 / 2 ^ n \<Longrightarrow> n \<le> 1022 \<Longrightarrow>
   double x = of_int (round_even (x * 2 ^ (n + 52))) / 2 ^ (n + 52)"
  by (simp add: double_def ulp_below_one)

lemma double_above_one:
  "2 ^ n \<le> \<bar>x\<bar> \<Longrightarrow> \<bar>x\<bar> < 2 * 2 ^ n \<Longrightarrow>
   double x = of_int (round_even (x * 2 ^ 52 / 2 ^ n)) * 2 ^ n / 2 ^ 52"
  by (simp add: double_def ulp_above_one)

lemma literal_008: "double 0.08 = 5764607523034235 / 2 ^ 56"
  using double_below_one [of 4 "0.08"] by (simp add: round_even_def)

lemma literal_03: "double 0.3 = 5404319552844595 / 2 ^ 54"
  using double_below_one [of 2 "0.3"] by (simp add: round_even_def)

lemma double_5_2: "double 2.5 = 2.5"
  using double_above_one [of 1 "2.5"] by (simp add: round_even_def)

lemma double_1: "double 1 = 1"
  using double_pow2 [of 0] by simp

lemma double_sixteenth: "double (1 / 16) = 1 / 16"
  using double_pow2 [of "- 4"] by (simp add: powr_neg_numeral)

lemma round_even_small: "0 \<le> y \<Longrightarrow> y < 1 / 2 \<Longrightarrow> round_even y = 0"
proof -
  assume "0 \<le> y" "y < 1 / 2"
  then have "\<lfloor>y\<rfloor> = 0" by linarith
  with \<open>y < 1 / 2\<close> show ?thesis by (simp add: round_even_def)
qed

lemma round_even_large: "1 / 2 < y \<Longrightarrow> 1 \<le> round_even y"
proof (cases "1 \<le> y")
  case True
  then have "1 \<le> \<lfloor>y\<rfloor>" by linarith
  then show ?thesis by (simp add: round_even_def)
next
  case False
  assume "1 / 2 < y"
  with False have "\<lfloor>y\<rfloor> = 0" by linarith
  with \<open>1 / 2 < y\<close> show ?thesis by (simp add: round_even_def)
qed

subsection \<open>One update of an intensity\<close>

text \<open>
  Towards the target 0 from a double \<open>c > 0\<close> the update is
  \<open>double (c - double (c * k))\<close>, with \<open>k\<close> the double of the literal \<^verbatim>\<open>0.08\<close>. Up to
  \<open>6 / 2 ^ 1074\<close> the product is less than half a unit and rounds to zero, and the
  intensity stays. Above it the rounded product is at least one unit of \<open>c\<close>, and the
  intensity goes down. Towards the target 2.5 from at most 1 the increment is at least
  \<open>1 / 16\<close>, and the intensity goes up.
\<close>

lemma smooth_double_decay:
  assumes "double c = c"
  shows "smooth_double c 0 = double (c - double (c * (5764607523034235 / 2 ^ 56)))"
proof -
  have "double (0 - c) = - c"
    using double_minus [of c] assms by simp
  then have "smooth_double c 0 = double (c + double (- (c * (5764607523034235 / 2 ^ 56))))"
    unfolding smooth_double_def literal_008 by simp
  then show ?thesis
    unfolding double_minus by simp
qed

lemma decay_stalls:
  assumes "double c = c" "0 < c" "c \<le> 6 / 2 ^ 1074"
  shows "smooth_double c 0 = c"
proof -
  define x where "x = c * (5764607523034235 / 2 ^ 56)"
  have x: "0 \<le> x" "x \<le> 6 / 2 ^ 1074 * (5764607523034235 / 2 ^ 56)"
    unfolding x_def using assms(2,3) by simp_all
  then have "\<bar>x\<bar> < 1 / 2 ^ 1021" by simp
  then have d: "double x = of_int (round_even (x * 2 ^ 1074)) / 2 ^ 1074"
    by (rule double_subnormal)
  have "0 \<le> x * 2 ^ 1074" "x * 2 ^ 1074 < 1 / 2"
    using x by simp_all
  then have "round_even (x * 2 ^ 1074) = 0"
    by (rule round_even_small)
  then have "double x = 0"
    unfolding d by simp
  then show ?thesis
    unfolding smooth_double_decay [OF assms(1)] x_def [symmetric] using assms(1) by simp
qed

lemma decay_strict:
  assumes "double c = c" "6 / 2 ^ 1074 < c"
  shows "smooth_double c 0 < c"
proof -
  define x where "x = c * (5764607523034235 / 2 ^ 56)"
  have c: "0 < c"
    by (rule less_trans [OF _ assms(2)]) simp
  have "ulp c \<le> double x"
  proof (cases "binade c = - 1022")
    case True
    then have "\<bar>c\<bar> < 2 powr (- real 1021)"
      using binade_upper [of c] by simp
    then have b: "\<bar>c\<bar> < 1 / 2 ^ 1021"
      by (simp only: two_powr_neg)
    then have u: "ulp c = 1 / 2 ^ 1074"
      by (rule ulp_subnormal)
    from double_significand [OF assms(1)] obtain n where "c = of_int n * ulp c"
      by blast
    then have n: "c = of_int n / 2 ^ 1074"
      unfolding u by simp
    then have "6 < (of_int n :: real)"
      using assms(2) by (simp add: divide_less_cancel)
    then have "7 \<le> n" by simp
    then have "(7 :: real) \<le> of_int n"
      by (metis of_int_le_iff of_int_numeral)
    then have "7 / 2 ^ 1074 \<le> c"
      unfolding n by (simp add: divide_le_cancel)
    then have l: "1 / 2 < x * 2 ^ 1074"
      unfolding x_def by simp
    have "\<bar>x\<bar> \<le> \<bar>c\<bar>"
      unfolding x_def using c by simp
    with b have "\<bar>x\<bar> < 1 / 2 ^ 1021" by simp
    then have "double x = of_int (round_even (x * 2 ^ 1074)) / 2 ^ 1074"
      by (rule double_subnormal)
    moreover have "(1 :: real) \<le> of_int (round_even (x * 2 ^ 1074))"
      using round_even_large [OF l] by (metis of_int_1 of_int_le_iff)
    ultimately show ?thesis
      unfolding u by (simp add: divide_le_cancel)
  next
    case False
    with binade_least [of c] have "- 1022 < binade c" by simp
    then have "2 ^ 52 * ulp c \<le> \<bar>c\<bar>"
      using binade_lower [of c] by (simp add: binade_powers)
    then have "ulp c \<le> x"
      unfolding x_def using c ulp_pos [of c] by simp
    with double_ulp show ?thesis
      by (rule double_mono_lower)
  qed
  then have "- double x \<le> - ulp c" by simp
  from step_down [OF assms(1) c this] show ?thesis
    unfolding smooth_double_decay [OF assms(1)] x_def [symmetric] by simp
qed

lemma rise_strict:
  assumes "double c = c" "0 \<le> c" "c \<le> 1"
  shows "c < smooth_double c 2.5"
proof -
  define d where "d = double (2.5 - c)"
  define m where "m = double (d * (5764607523034235 / 2 ^ 56))"
  have "1 \<le> d"
    unfolding d_def using double_1 by (rule double_mono_lower) (use assms(3) in simp)
  then have "1 / 16 \<le> d * (5764607523034235 / 2 ^ 56)"
    by simp
  with double_sixteenth have "1 / 16 \<le> m"
    unfolding m_def by (rule double_mono_lower)
  moreover have "ulp c \<le> 1 / 2 ^ 52"
    by (rule ulp_below_two) (use assms(2,3) in simp)
  ultimately have "ulp c \<le> m" by simp
  from step_up [OF assms(1,2) this] show ?thesis
    unfolding smooth_double_def literal_008 m_def d_def .
qed

text \<open>
  The update at the intensities 6 and 7 units above zero, and the first update from 0
  towards the target 2.5, which gives the double nearest to 0.2.
\<close>

lemma tiny_doubles:
  "double (6 / 2 ^ 1074) = 6 / 2 ^ 1074"
  "double (7 / 2 ^ 1074) = 7 / 2 ^ 1074"
  using double_subnormal [of "6 / 2 ^ 1074"] double_subnormal [of "7 / 2 ^ 1074"]
  by (simp_all add: round_even_def)

lemma stalled_step: "smooth_double (6 / 2 ^ 1074) 0 = 6 / 2 ^ 1074"
  by (rule decay_stalls [OF tiny_doubles(1)]) simp_all

lemma last_step: "smooth_double (7 / 2 ^ 1074) 0 = 6 / 2 ^ 1074"
proof -
  have "double (7 / 2 ^ 1074 * (5764607523034235 / 2 ^ 56)) = 1 / 2 ^ 1074"
    using double_subnormal [of "7 / 2 ^ 1074 * (5764607523034235 / 2 ^ 56)"]
    by (simp add: round_even_def)
  then have "smooth_double (7 / 2 ^ 1074) 0 = double (7 / 2 ^ 1074 - 1 / 2 ^ 1074)"
    unfolding smooth_double_decay [OF tiny_doubles(2)] by (simp only:)
  also have "7 / 2 ^ 1074 - 1 / 2 ^ 1074 = (6 :: real) / 2 ^ 1074"
    by simp
  finally show ?thesis
    unfolding tiny_doubles(1) .
qed

lemma first_step: "smooth_double 0 2.5 = 7205759403792794 / 2 ^ 55"
proof -
  have e: "smooth_double 0 2.5 = double (double (double 2.5 * double 0.08))"
    by (simp add: smooth_double_def)
  have p: "double (2.5 * (5764607523034235 / 2 ^ 56)) = 7205759403792794 / 2 ^ 55"
    using double_below_one [of 3 "2.5 * (5764607523034235 / 2 ^ 56)"]
    by (simp add: round_even_def)
  have q: "double (7205759403792794 / 2 ^ 55) = 7205759403792794 / 2 ^ 55"
    using double_below_one [of 3 "7205759403792794 / 2 ^ 55"]
    by (simp add: round_even_def)
  show ?thesis
    unfolding e double_5_2 literal_008 p q ..
qed

text \<open>
  Claim C8, amended. Let the intensity \<open>c\<close> be a double that is not negative, the target
  \<open>t\<close> one of 0 and 2.5, as on every tick of the action, and \<open>c \<noteq> t\<close>; and let the
  updated intensity not exceed the double of the literal \<^verbatim>\<open>0.3\<close>, so that no flicker term
  is added. Then the update of line 168, computed in doubles, leaves the intensity
  between its old value and the target, so the distance to the target does not grow;
  and the distance shrinks strictly in every case but one: the target is 0 and the
  intensity is at most \<open>6 / 2 ^ 1074\<close>, about \<^verbatim>\<open>3e-323\<close>.
\<close>

theorem smoothing_approaches_target_unless_stalled:
  assumes "double c = c" and "0 \<le> c" and "c < 2 ^ 1024"
    and "t = 0 \<or> t = 2.5" and "c \<noteq> t"
    and "\<not> double 0.3 < smooth_double c t"
  shows "min c t \<le> smooth_double c t \<and> smooth_double c t \<le> max c t
    \<and> \<bar>smooth_double c t - t\<bar> \<le> \<bar>c - t\<bar>
    \<and> (\<bar>smooth_double c t - t\<bar> < \<bar>c - t\<bar>) = (\<not> (t = 0 \<and> c \<le> 6 / 2 ^ 1074))"
proof (cases "t = 0")
  case True
  have c: "0 < c" using assms(2,5) True by simp
  have b: "0 \<le> smooth_double c 0 \<and> smooth_double c 0 \<le> c"
    using smooth_double_between(2) [OF assms(1) double_0] assms(2) by simp
  show ?thesis
  proof (cases "c \<le> 6 / 2 ^ 1074")
    case True
    from decay_stalls [OF assms(1) c this] show ?thesis
      using \<open>t = 0\<close> True c by simp
  next
    case False
    then have "6 / 2 ^ 1074 < c" by simp
    from decay_strict [OF assms(1) this] show ?thesis
      using \<open>t = 0\<close> False b by simp
  qed
next
  case False
  then have t: "t = 2.5" using assms(4) by simp
  have d: "double t = t" unfolding t by (rule double_5_2)
  have l: "smooth_double c t < 1"
    using assms(6) unfolding literal_03 by simp
  have ct: "c \<le> t"
  proof (rule ccontr)
    assume "\<not> c \<le> t"
    then have "t \<le> smooth_double c t"
      using smooth_double_between(2) [OF assms(1) d] by simp
    with l t show False by linarith
  qed
  from smooth_double_between(1) [OF assms(1) d ct]
  have b: "c \<le> smooth_double c t" "smooth_double c t \<le> t" by simp_all
  with l have "c \<le> 1" by linarith
  from rise_strict [OF assms(1,2) this] have s: "c < smooth_double c t"
    unfolding t .
  have 1: "min c t \<le> smooth_double c t" "smooth_double c t \<le> max c t"
    using b ct by (simp_all add: min_def max_def)
  have 2: "\<bar>smooth_double c t - t\<bar> < \<bar>c - t\<bar>"
    using b s by (simp add: abs_if)
  from 1 2 False show ?thesis
    by auto
qed

theorem smoothing_approaches_target_unless_stalled_witness:
  "double 0 = 0 \<and> (0 :: real) \<le> 0 \<and> (0 :: real) < 2 ^ 1024 \<and> (0 :: real) \<noteq> 2.5
   \<and> \<not> double 0.3 < smooth_double 0 2.5
   \<and> \<bar>smooth_double 0 2.5 - 2.5\<bar> < \<bar>0 - 2.5\<bar>
   \<and> double (7 / 2 ^ 1074) = 7 / 2 ^ 1074 \<and> (0 :: real) \<le> 7 / 2 ^ 1074
   \<and> (7 :: real) / 2 ^ 1074 < 2 ^ 1024 \<and> (7 :: real) / 2 ^ 1074 \<noteq> 0
   \<and> \<not> double 0.3 < smooth_double (7 / 2 ^ 1074) 0
   \<and> \<bar>smooth_double (7 / 2 ^ 1074) 0 - 0\<bar> < \<bar>7 / 2 ^ 1074 - 0\<bar>"
proof -
  have h: "double 0 = 0" "(0 :: real) \<le> 0" "(0 :: real) < 2 ^ 1024"
    "(2.5 :: real) = 0 \<or> (2.5 :: real) = 2.5" "(0 :: real) \<noteq> 2.5"
    by (rule double_0) simp_all
  have f: "\<not> double 0.3 < smooth_double 0 2.5"
    unfolding first_step literal_03 by simp
  from smoothing_approaches_target_unless_stalled [OF h f]
  have "(\<bar>smooth_double 0 2.5 - 2.5\<bar> < \<bar>0 - 2.5\<bar>)
      = (\<not> ((2.5 :: real) = 0 \<and> (0 :: real) \<le> 6 / 2 ^ 1074))"
    by blast
  then have 1: "\<bar>smooth_double 0 2.5 - 2.5\<bar> < \<bar>0 - 2.5\<bar>"
    by simp
  have k: "double (7 / 2 ^ 1074) = 7 / 2 ^ 1074" "(0 :: real) \<le> 7 / 2 ^ 1074"
    "(7 :: real) / 2 ^ 1074 < 2 ^ 1024" "(0 :: real) = 0 \<or> (0 :: real) = 2.5"
    "(7 :: real) / 2 ^ 1074 \<noteq> 0"
    by (rule tiny_doubles) simp_all
  have g: "\<not> double 0.3 < smooth_double (7 / 2 ^ 1074) 0"
    unfolding last_step literal_03 by simp
  from smoothing_approaches_target_unless_stalled [OF k g]
  have "(\<bar>smooth_double (7 / 2 ^ 1074) 0 - 0\<bar> < \<bar>7 / 2 ^ 1074 - 0\<bar>)
      = (\<not> ((0 :: real) = 0 \<and> (7 :: real) / 2 ^ 1074 \<le> 6 / 2 ^ 1074))"
    by blast
  then have 2: "\<bar>smooth_double (7 / 2 ^ 1074) 0 - 0\<bar> < \<bar>7 / 2 ^ 1074 - 0\<bar>"
    by simp
  from h f 1 k g 2 show ?thesis
    by blast
qed

text \<open>
  Claim C8 as stated fails in double arithmetic. The intensity \<open>6 / 2 ^ 1074\<close> is a
  double and differs from the target 0, and no flicker term follows, since it is
  below 0.3. The increment \<open>(0 - c) * 0.08\<close> is \<open>0.48\<close> units in the last place and rounds
  to zero, so the update leaves the intensity where it was: the distance to the target
  does not decrease.
\<close>

theorem smoothing_stalls_near_zero:
  "double (6 / 2 ^ 1074) = 6 / 2 ^ 1074
   \<and> (6 / 2 ^ 1074 :: real) \<noteq> 0
   \<and> \<not> double 0.3 < smooth_double (6 / 2 ^ 1074) 0
   \<and> \<not> \<bar>smooth_double (6 / 2 ^ 1074) 0 - 0\<bar> < \<bar>6 / 2 ^ 1074 - 0\<bar>"
  unfolding stalled_step tiny_doubles(1) literal_03 by simp

section \<open>Clicks\<close>

lemma first_move: "(0::real) + 0.02 / duration < 1"
  by (simp add: duration_def)

lemma focusOn_Some:
  "focusOn (Some m) key s =
     Inr (s\<lparr>camera_position :=
              lerpVectors (camera_position s) (add_vec (world_position s m) (0, 0.5, 2))
                (0.02 / duration),
            raf_queue := raf_queue s @
              [(next_raf s,
                Move \<lparr>fstart = camera_position s,
                      fend = add_vec (world_position s m) (0, 0.5, 2),
                      progress = 0.02 / duration, portfolio = key,
                      focusAnimationId = Some (next_raf s)\<rparr>)],
            next_raf := next_raf s + 1\<rparr>)"
  using first_move by (simp add: focusOn_def move_def requestAnimationFrame_def Let_def)

text \<open>
  \<^verbatim>\<open>onClick\<close> calls \<^verbatim>\<open>focusOn\<close> on the model \<open>click_subject\<close> names; in every other
  case it leaves the state alone, or throws before writing anything.
\<close>

lemma onClick_subject:
  "onClick s =
     (case click_subject s of
        Some (m, key) \<Rightarrow> focusOn (Some m) key s
      | None \<Rightarrow> (case onClick s of Inl e \<Rightarrow> Inl e | Inr t \<Rightarrow> Inr s))"
  by (auto simp add: onClick_def click_subject_def within_two_def nullable_def
      uninitialised_def optional_parent_def focusOn_def split: option.splits jsref.splits)

text \<open>
  Claim C1, as amended. A click that reaches the listener starts a camera focus
  animation exactly when the hovered object is a child or a grandchild of a loaded
  model, whether or not other animations are in flight: the new closure is appended to
  those already scheduled. The click itself logs nothing, and a click while nothing is
  hovered changes nothing.
\<close>

theorem click_starts_focus_for_nearby_model:
  assumes "Click \<in> set (listeners s)"
  shows "running (raf_queue (step s Clicked)) =
           running (raf_queue s) @
             (case click_subject s of
                None \<Rightarrow> []
              | Some (m, key) \<Rightarrow>
                  [\<lparr>fstart = camera_position s,
                    fend = add_vec (world_position s m) (0, 0.5, 2),
                    progress = 0.02 / duration, portfolio = key,
                    focusAnimationId = Some (next_raf s)\<rparr>])
         \<and> console (step s Clicked) = console s
         \<and> (hoveredObject s = None \<longrightarrow> step s Clicked = s)"
proof (cases "click_subject s")
  case None
  then have "step s Clicked = s"
    using assms onClick_subject [of s] by (simp split: sum.splits)
  with None show ?thesis by simp
next
  case (Some a)
  then obtain m key where a: "click_subject s = Some (m, key)" by (cases a) simp
  then have h: "hoveredObject s \<noteq> None"
    by (auto simp add: click_subject_def split: option.splits)
  from a have "onClick s = focusOn (Some m) key s"
    using onClick_subject [of s] by simp
  then show ?thesis
    using assms a h by (auto simp add: focusOn_Some running_append)
qed

lemma hovering_subject: "click_subject hovering = Some (Node 10 (Some scene), ''photography'')"
  by (simp add: hovering_state click_subject_def within_two_def lens_def)

theorem click_starts_focus_for_nearby_model_witness:
  "Click \<in> set (listeners hovering)
   \<and> running (raf_queue (step hovering Clicked)) =
       [\<lparr>fstart = (0.5, 0, 1), fend = (- 0.3, 0.5, 2), progress = 1 / 60,
         portfolio = ''photography'', focusAnimationId = Some 3\<rparr>]
   \<and> console (step hovering Clicked) = []
   \<and> Click \<in> set (listeners camera_ready)
   \<and> hoveredObject camera_ready = None
   \<and> step camera_ready Clicked = camera_ready"
proof -
  have l: "Click \<in> set (listeners hovering)" "Click \<in> set (listeners camera_ready)"
    by (simp_all add: hovering_state camera_ready_state)
  have n: "hoveredObject camera_ready = None"
    by (simp add: camera_ready_state)
  have v: "camera_position hovering = (0.5, 0, 1)" "next_raf hovering = 3"
    "running (raf_queue hovering) = []" "console hovering = []"
    "world_position hovering (Node 10 (Some scene)) = (- 0.3, 0, 0)"
    by (simp_all add: hovering_state)
  from click_starts_focus_for_nearby_model [OF l(1)]
  have "running (raf_queue (step hovering Clicked)) =
       [\<lparr>fstart = (0.5, 0, 1), fend = (- 0.3, 0.5, 2), progress = 1 / 60,
         portfolio = ''photography'', focusAnimationId = Some 3\<rparr>]
      \<and> console (step hovering Clicked) = []"
    by (simp add: hovering_subject v duration_def del: step.simps)
  moreover from click_starts_focus_for_nearby_model [OF l(2)] n
  have "step camera_ready Clicked = camera_ready"
    by blast
  ultimately show ?thesis
    using l n by blast
qed

lemma hovering_glass_state:
  "hoveredObject hovering_glass = Some glass"
  "cameraTargetIntensity hovering_glass = 2.5"
  "cameraModel hovering_glass = Some (Node 10 (Some scene))"
  "macbookModel hovering_glass = None"
  "Click \<in> set (listeners hovering_glass)"
  by (simp_all add: hovering_glass_def camera_ready_state frame_def animate_def hover_stage_def
        light_stage_def requestAnimationFrame_def nullable_def uninitialised_def
        glass_def lens_def pointing_at_def quiet_def Let_def)

text \<open>
  Claim C1 as stated fails twice. With one focus animation in flight, a second click
  on the hovered model schedules a second one. And a model can be hovered, with its
  light asked for, while a click starts nothing: the hover stage walks up to the model
  from any depth, \<^verbatim>\<open>onClick\<close> looks two levels up only.
\<close>

theorem click_while_running_starts_second_focus:
  "length (running (raf_queue focusing)) = 1
   \<and> length (running (raf_queue (step focusing Clicked))) = 2
   \<and> hoveredObject hovering_glass = Some glass
   \<and> cameraTargetIntensity hovering_glass = 2.5
   \<and> step hovering_glass Clicked = hovering_glass"
proof -
  have "length (running (raf_queue focusing)) = 1
    \<and> length (running (raf_queue (step focusing Clicked))) = 2"
    by (simp add: focusing_state onClick_def focusOn_def move_def requestAnimationFrame_def
        nullable_def uninitialised_def optional_parent_def lens_def duration_def Let_def)
  moreover have "step hovering_glass Clicked = hovering_glass"
    by (simp add: hovering_glass_state onClick_def nullable_def uninitialised_def
        optional_parent_def glass_def lens_def)
  ultimately show ?thesis
    by (simp add: hovering_glass_state del: step.simps)
qed

section \<open>The two writers of the camera position\<close>

text \<open>
  Claim C5, as amended. Every tick of \<^verbatim>\<open>animate\<close> writes the output of
  \<^verbatim>\<open>controls.update()\<close> to the camera position and renders with it, whatever is
  scheduled. In a frame with one focus animation in flight, \<^verbatim>\<open>animate\<close> runs first and
  renders the position the controls chose; \<^verbatim>\<open>move\<close> runs after it and overwrites the
  position with its interpolation, or with its end position.
\<close>

theorem main_loop_writes_camera_every_tick:
  "camera_position (animate inp s) = orbit inp (camera_position s)
   \<and> frames (animate inp s) = frames s @ [orbit inp (camera_position s)]
   \<and> (raf_queue s = [(i, Animate), (j, Move f)] \<longrightarrow>
        frames (frame inp s) = frames s @ [orbit inp (camera_position s)]
        \<and> camera_position (frame inp s) =
            (if progress f + 0.02 / duration < 1
             then lerpVectors (fstart f) (fend f) (progress f + 0.02 / duration)
             else fend f))"
  by (simp add: animate_frame frame_def move_camera)

theorem main_loop_writes_camera_every_tick_witness:
  "raf_queue focusing =
     [(2, Animate),
      (3, Move \<lparr>fstart = (0.5, 0, 1), fend = (- 0.3, 0.5, 2), progress = 1 / 60,
               portfolio = ''photography'', focusAnimationId = Some 3\<rparr>)]
   \<and> camera_position (animate dragging focusing) = (0, 1, 2)
   \<and> frames (frame dragging focusing) = [(0.5, 0, 1), (0.5, 0, 1), (0, 1, 2)]
   \<and> camera_position (frame dragging focusing) = (71 / 150, 1 / 60, 31 / 30)"
proof -
  have q: "raf_queue focusing =
     [(2, Animate),
      (3, Move \<lparr>fstart = (0.5, 0, 1), fend = (- 0.3, 0.5, 2), progress = 1 / 60,
               portfolio = ''photography'', focusAnimationId = Some 3\<rparr>)]"
    by (simp add: focusing_state)
  have v: "orbit dragging (camera_position focusing) = (0, 1, 2)"
    "frames focusing = [(0.5, 0, 1), (0.5, 0, 1)]"
    by (simp_all add: focusing_state dragging_def quiet_def)
  show ?thesis
    using main_loop_writes_camera_every_tick [of dragging focusing 2 3
        "\<lparr>fstart = (0.5, 0, 1), fend = (- 0.3, 0.5, 2), progress = 1 / 60,
          portfolio = ''photography'', focusAnimationId = Some 3\<rparr>"] q
    by (simp add: v duration_def)
qed

text \<open>
  Claim C5 as stated fails: while a focus animation is in flight, a tick of the main
  loop moves the camera away from the position the animation wrote.
\<close>

theorem main_loop_moves_camera_during_focus:
  "length (running (raf_queue focusing)) = 1
   \<and> camera_position focusing = (73 / 150, 1 / 120, 61 / 60)
   \<and> camera_position (animate dragging focusing) = (0, 1, 2)"
  by (simp add: animate_frame focusing_state dragging_def quiet_def)

section \<open>Resize\<close>

text \<open>
  Claim C7, as amended. In both components the resize handler has no guard: for every
  width and height it sets the camera aspect to the JavaScript quotient, computes the
  projection from it and resizes the render target. The quotient is \<open>w / h\<close> when
  \<open>h\<close> is positive (so \<open>0\<close> for width \<open>0\<close>), and \<^verbatim>\<open>Infinity\<close> or \<^verbatim>\<open>NaN\<close> when \<open>h\<close> is \<open>0\<close>.
\<close>

theorem resize_sets_aspect_and_size:
  "camera_aspect (handleResize w h s) = js_div w h
   \<and> projection_aspect (handleResize w h s) = js_div w h
   \<and> renderer_size (handleResize w h s) = (w, h)
   \<and> camera_aspect (handleResize_onMount w h s) = js_div w h
   \<and> projection_aspect (handleResize_onMount w h s) = js_div w h
   \<and> renderer_size (handleResize_onMount w h s) = (w, h)
   \<and> (0 < h \<longrightarrow> js_div w h = Num (real w / real h))
   \<and> (h = 0 \<longrightarrow> js_div w h = (if w = 0 then NaN else Infinity))"
  by (simp add: handleResize_def handleResize_onMount_def js_div_def Let_def)

theorem resize_sets_aspect_and_size_witness:
  "camera_aspect (handleResize 800 400 camera_ready) = Num 2
   \<and> projection_aspect (handleResize 800 400 camera_ready) = Num 2
   \<and> renderer_size (handleResize 800 400 camera_ready) = (800, 400)
   \<and> camera_aspect (handleResize 800 0 camera_ready) = Infinity
   \<and> renderer_size (handleResize 800 0 camera_ready) = (800, 0)"
  using resize_sets_aspect_and_size [of 800 400 camera_ready]
    resize_sets_aspect_and_size [of 800 0 camera_ready]
  by simp

text \<open>
  Claim C7 as stated fails: a resize to width 0 is delivered to the handler and
  changes both the aspect and the size of the render target.
\<close>

theorem resize_zero_width_changes_viewport:
  "camera_aspect camera_ready = Num 2
   \<and> renderer_size camera_ready = (800, 400)
   \<and> camera_aspect (step camera_ready (Resized 0 400)) = Num 0
   \<and> renderer_size (step camera_ready (Resized 0 400)) = (0, 400)"
  by (simp add: camera_ready_state handleResize_def js_div_def Let_def)

section \<open>Ticks before any model has loaded\<close>

text \<open>
  Claim C10. On a tick of \<^verbatim>\<open>animate\<close> with neither model loaded, whatever the ray
  caster would report, the hovered object and both light targets are unchanged, both
  lights are smoothed (and flickered) towards their unchanged targets, and one frame
  is rendered.
\<close>

theorem hover_skipped_without_models:
  assumes "cameraModel s = None" and "macbookModel s = None"
  shows "hoveredObject (animate inp s) = hoveredObject s
       \<and> cameraTargetIntensity (animate inp s) = cameraTargetIntensity s
       \<and> computerTargetIntensity (animate inp s) = computerTargetIntensity s
       \<and> cameraGlow (animate inp s) =
           flicker 0.02 (now_camera inp) (smooth (cameraGlow s) (cameraTargetIntensity s))
       \<and> computerGlow (animate inp s) =
           flicker 0.018 (now_computer inp)
             (smooth (computerGlow s) (computerTargetIntensity s))
       \<and> frames (animate inp s) = frames s @ [orbit inp (camera_position s)]"
proof -
  have "hover_stage inp s = s"
    using assms by (simp add: hover_stage_def)
  then show ?thesis
    by (simp add: animate_targets animate_glow animate_frame)
qed

theorem hover_skipped_without_models_witness:
  "cameraModel (threeSceneAction 800 400 quiet) = None
   \<and> macbookModel (threeSceneAction 800 400 quiet) = None
   \<and> hoveredObject (animate (pointing_at lens) (threeSceneAction 800 400 quiet)) = None
   \<and> cameraTargetIntensity (animate (pointing_at lens) (threeSceneAction 800 400 quiet)) = 0
   \<and> computerTargetIntensity (animate (pointing_at lens) (threeSceneAction 800 400 quiet)) = 0
   \<and> cameraGlow (animate (pointing_at lens) (threeSceneAction 800 400 quiet)) = 0
   \<and> computerGlow (animate (pointing_at lens) (threeSceneAction 800 400 quiet)) = 0
   \<and> frames (animate (pointing_at lens) (threeSceneAction 800 400 quiet)) =
       [(0.5, 0, 1), (0.5, 0, 1)]"
proof -
  have m: "cameraModel (threeSceneAction 800 400 quiet) = None"
    "macbookModel (threeSceneAction 800 400 quiet) = None"
    by (simp_all add: action_started)
  have v: "hoveredObject (threeSceneAction 800 400 quiet) = None"
    "cameraTargetIntensity (threeSceneAction 800 400 quiet) = 0"
    "computerTargetIntensity (threeSceneAction 800 400 quiet) = 0"
    "cameraGlow (threeSceneAction 800 400 quiet) = 0"
    "computerGlow (threeSceneAction 800 400 quiet) = 0"
    "frames (threeSceneAction 800 400 quiet) = [(0.5, 0, 1)]"
    "camera_position (threeSceneAction 800 400 quiet) = (0.5, 0, 1)"
    by (simp_all add: action_started)
  have o: "orbit (pointing_at lens) = (\<lambda>p. p)"
    by (simp add: pointing_at_def quiet_def)
  have f: "flicker a b (smooth 0 0) = 0" for a b
    by (simp add: smooth_def flicker_def)
  from hover_skipped_without_models [OF m, of "pointing_at lens"]
  show ?thesis
    unfolding v o f using m by simp
qed

text \<open>The second component skips its hover stage in the same way; it has no smoothing.\<close>

lemma hover_skipped_without_models_onMount:
  assumes "cameraModel s = None" and "macbookModel s = None"
  shows "hoveredObject (animate_onMount inp s) = hoveredObject s
       \<and> cameraGlow (animate_onMount inp s) = cameraGlow s
       \<and> computerGlow (animate_onMount inp s) = computerGlow s
       \<and> frames (animate_onMount inp s) = frames s @ [orbit inp (camera_position s)]"
  using assms
  by (simp add: animate_onMount_def hover_stage_onMount_def requestAnimationFrame_def Let_def)

text \<open>
  The hover stage of the second component, for comparison: it has no targets and
  writes the intensities themselves, when the nearest hit is not the hovered object
  already; it looks one level up only.
\<close>

lemma hover_stage_onMount_lights:
  assumes "cameraModel s = Some m" and "first_child s m \<noteq> None"
    and "macbookModel s = None"
  shows "hits inp = [] \<Longrightarrow>
           hover_stage_onMount inp s =
             Inr (s\<lparr>hoveredObject := None, cameraGlow := 0, computerGlow := 0\<rparr>)"
    and "hits inp = t # rest \<Longrightarrow> Some t \<noteq> hoveredObject s \<Longrightarrow> parent t = Some m \<Longrightarrow>
           hover_stage_onMount inp s =
             Inr (s\<lparr>hoveredObject := Some t, cameraGlow := 2, computerGlow := 0\<rparr>)"
  using assms
  by (auto simp add: hover_stage_onMount_def nullable_def uninitialised_def Let_def)

section \<open>Invariants of a run\<close>

lemma frame_induct:
  assumes "P (s\<lparr>raf_queue := []\<rparr>)"
    and "\<And>cb st. P st \<Longrightarrow> P (run_callback inp cb st)"
  shows "P (frame inp s)"
proof -
  have "P st \<Longrightarrow> P (foldl (\<lambda>st (i, cb). run_callback inp cb st) st q)"
    for st and q :: "(nat \<times> callback) list"
    by (induction q arbitrary: st) (auto simp add: assms(2))
  with assms(1) show ?thesis
    by (simp add: frame_def)
qed

lemma smooth_nonneg: "0 \<le> c \<Longrightarrow> 0 \<le> t \<Longrightarrow> 0 \<le> smooth c t"
proof -
  assume c: "0 \<le> c" and t: "0 \<le> t"
  have "smooth c t = c * 0.92 + t * 0.08"
    by (simp add: smooth_def field_simps)
  with c t show ?thesis by simp
qed

lemma flicker_nonneg:
  assumes "0 \<le> c"
  shows "0 \<le> flicker f now c"
proof (cases "0.3 < c")
  case True
  have "- 1 \<le> sin (real_of_int now * f)" by simp
  with True have "0 \<le> c + sin (real_of_int now * f) * 0.05" by (simp; linarith)
  with True show ?thesis by (simp only: flicker_def if_True)
next
  case False
  with assms show ?thesis by (simp only: flicker_def if_False)
qed

lemma hover_stage_targets:
  "cameraTargetIntensity s \<in> {0, 2.5} \<Longrightarrow> cameraTargetIntensity (hover_stage inp s) \<in> {0, 2.5}"
  "computerTargetIntensity s \<in> {0, 2.5} \<Longrightarrow> computerTargetIntensity (hover_stage inp s) \<in> {0, 2.5}"
  by (auto simp add: hover_stage_def Let_def split: list.split)

lemma lights_ok_animate: "lights_ok s \<Longrightarrow> lights_ok (animate inp s)"
  unfolding lights_ok_def animate_glow animate_targets
  using hover_stage_targets [of s inp]
  by (auto intro!: flicker_nonneg smooth_nonneg)

lemma move_lights:
  "cameraGlow (move f s) = cameraGlow s"
  "computerGlow (move f s) = computerGlow s"
  "cameraTargetIntensity (move f s) = cameraTargetIntensity s"
  "computerTargetIntensity (move f s) = computerTargetIntensity s"
  "hoveredObject (move f s) = hoveredObject s"
  "cameraModel (move f s) = cameraModel s"
  "macbookModel (move f s) = macbookModel s"
  "listeners (move f s) = listeners s"
  "animationFrameId (move f s) = animationFrameId s"
  by (simp_all add: move_def requestAnimationFrame_def Let_def)

lemma lights_ok_callback: "lights_ok s \<Longrightarrow> lights_ok (run_callback inp cb s)"
  by (cases cb) (simp_all add: lights_ok_animate, simp add: lights_ok_def move_lights)

lemma lights_ok_frame:
  assumes "lights_ok s"
  shows "lights_ok (frame inp s)"
proof (rule frame_induct)
  show "lights_ok (s\<lparr>raf_queue := []\<rparr>)"
    using assms by (simp add: lights_ok_def)
next
  fix cb st
  assume "lights_ok st"
  then show "lights_ok (run_callback inp cb st)"
    by (rule lights_ok_callback)
qed

lemma onClick_lights:
  "onClick s = Inr t \<Longrightarrow> lights_ok s \<Longrightarrow> lights_ok t"
  by (auto simp add: onClick_def focusOn_def lights_ok_def move_lights
      split: option.splits if_splits)

lemma lights_ok_step: "lights_ok s \<Longrightarrow> lights_ok (step s ev)"
proof (cases ev)
  case Clicked
  assume "lights_ok s"
  then show ?thesis
    using Clicked onClick_lights [of s] by (simp split: sum.splits)
next
  case (Frame inp)
  assume "lights_ok s"
  then show ?thesis using Frame by (simp add: lights_ok_frame)
qed (simp_all add: lights_ok_def camera_loaded_def computer_loaded_def handleResize_def
      destroy_def cancelAnimationFrame_def removeEventListener_def Let_def)

lemma lights_ok_run: "lights_ok s \<Longrightarrow> lights_ok (run s evs)"
  unfolding run_def by (induction evs arbitrary: s) (simp_all add: lights_ok_step)

lemma lights_ok_start: "lights_ok (threeSceneAction w h inp)"
  by (simp add: lights_ok_def threeSceneAction_def animate_glow animate_targets
      hover_stage_def smooth_def flicker_def Let_def)

text \<open>
  Claim C9. In every state the action reaches from its start, by any sequence of
  loads, clicks, frames, resizes and clean-ups, both light intensities are
  non-negative: smoothing towards a target of 0 or 2.5 keeps an intensity non-negative,
  and the flicker term, at most 0.05 in size, is added only above 0.3. The targets
  are 0 or 2.5 throughout. Numbers are exact reals here.
\<close>

theorem lights_never_negative:
  "0 \<le> cameraGlow (run (threeSceneAction w h inp) evs)
   \<and> 0 \<le> computerGlow (run (threeSceneAction w h inp) evs)
   \<and> cameraTargetIntensity (run (threeSceneAction w h inp) evs) \<in> {0, 2.5}
   \<and> computerTargetIntensity (run (threeSceneAction w h inp) evs) \<in> {0, 2.5}"
  using lights_ok_run [OF lights_ok_start, of w h inp evs] by (simp add: lights_ok_def)

theorem lights_never_negative_witness:
  "0 \<le> cameraGlow (run (threeSceneAction 800 400 quiet)
            [Camera_loaded camera_gltf, Frame (pointing_at lens)])
   \<and> 0 \<le> computerGlow (run (threeSceneAction 800 400 quiet)
            [Camera_loaded camera_gltf, Frame (pointing_at lens)])
   \<and> cameraTargetIntensity (run (threeSceneAction 800 400 quiet)
         [Camera_loaded camera_gltf, Frame (pointing_at lens)]) \<in> {0, 2.5}
   \<and> computerTargetIntensity (run (threeSceneAction 800 400 quiet)
         [Camera_loaded camera_gltf, Frame (pointing_at lens)]) \<in> {0, 2.5}"
  by (rule lights_never_negative)

subsection \<open>What a frame does to the hover state\<close>

lemma hover_view_stage:
  "hover_view s = hover_view t \<Longrightarrow> hover_view (hover_stage inp s) = hover_view (hover_stage inp t)"
  by (simp add: hover_view_def hover_stage_def Let_def split: list.split)

lemma hover_view_animate: "hover_view (animate inp s) = hover_view (hover_stage inp s)"
proof -
  have "hover_view (hover_stage inp
          (s\<lparr>raf_queue := q, next_raf := n, animationFrameId := a, camera_position := p\<rparr>))
        = hover_view (hover_stage inp s)" for q n a p
    by (rule hover_view_stage) (simp add: hover_view_def)
  then show ?thesis
    by (simp add: hover_view_def animate_targets animate_frame hover_stage_keeps)
qed

lemma hover_view_move: "hover_view (move f s) = hover_view s"
  by (simp add: hover_view_def move_lights)

lemma hover_view_fold:
  "hover_view st = hover_view t \<Longrightarrow>
   hover_view (foldl (\<lambda>st (i, cb). run_callback inp cb st) st q)
     = hover_view ((hover_stage inp ^^ main_ticks q) t)"
proof (induction q arbitrary: st t rule: main_ticks.induct)
  case 1
  then show ?case by simp
next
  case (2 i q)
  have "hover_view (animate inp st) = hover_view (hover_stage inp st)"
    by (rule hover_view_animate)
  also have "\<dots> = hover_view (hover_stage inp t)"
    using 2(2) by (rule hover_view_stage)
  finally have "hover_view (animate inp st) = hover_view (hover_stage inp t)" .
  from 2(1) [OF this] show ?case
    by (simp add: funpow_Suc_right del: funpow.simps)
next
  case (3 i f q)
  have "hover_view (move f st) = hover_view t"
    using 3(2) by (simp add: hover_view_move)
  from 3(1) [OF this] show ?case by simp
qed

lemma hover_view_frame:
  assumes "main_ticks (raf_queue s) = 1"
  shows "hover_view (frame inp s) = hover_view (hover_stage inp s)"
proof -
  have "hover_view (s\<lparr>raf_queue := []\<rparr>) = hover_view s"
    by (simp add: hover_view_def)
  from hover_view_fold [OF this, of inp "raf_queue s"] assms show ?thesis
    by (simp add: frame_def)
qed

lemma main_ticks_append: "main_ticks (q @ r) = main_ticks q + main_ticks r"
  by (induction q rule: main_ticks.induct) simp_all

lemma main_ticks_move: "main_ticks (raf_queue (move f s)) = main_ticks (raf_queue s)"
  by (simp add: move_def requestAnimationFrame_def Let_def main_ticks_append)

lemma main_ticks_fold:
  "main_ticks (raf_queue (foldl (\<lambda>st (i, cb). run_callback inp cb st) st q))
     = main_ticks (raf_queue st) + main_ticks q"
  by (induction q arbitrary: st rule: main_ticks.induct)
    (simp_all add: animate_frame main_ticks_append main_ticks_move)

lemma main_ticks_frame: "main_ticks (raf_queue (frame inp s)) = main_ticks (raf_queue s)"
  by (simp add: frame_def main_ticks_fold)

lemma main_ticks_click: "onClick s = Inr t \<Longrightarrow> main_ticks (raf_queue t) = main_ticks (raf_queue s)"
  by (auto simp add: onClick_def focusOn_def main_ticks_move split: option.splits if_splits)

lemma main_ticks_step:
  "Destroyed \<noteq> ev \<Longrightarrow> main_ticks (raf_queue (step s ev)) = main_ticks (raf_queue s)"
  by (cases ev)
    (auto simp add: main_ticks_frame main_ticks_click camera_loaded_def computer_loaded_def
      handleResize_def Let_def split: sum.splits)

lemma main_ticks_run:
  "Destroyed \<notin> set evs \<Longrightarrow> main_ticks (raf_queue (run s evs)) = main_ticks (raf_queue s)"
  unfolding run_def by (induction evs arbitrary: s) (simp_all add: main_ticks_step)

lemma main_ticks_start: "main_ticks (raf_queue (threeSceneAction w h inp)) = 1"
  by (simp add: threeSceneAction_def animate_frame Let_def)

lemma hover_ok_stage: "hover_ok s \<Longrightarrow> hover_ok (hover_stage inp s)"
  by (auto simp add: hover_ok_def hover_stage_def Let_def split: list.split)

lemma hover_ok_view: "hover_view s = hover_view t \<Longrightarrow> hover_ok s = hover_ok t"
  by (simp add: hover_view_def hover_ok_def)

lemma hover_ok_callback: "hover_ok s \<Longrightarrow> hover_ok (run_callback inp cb s)"
proof (cases cb)
  case Animate
  assume "hover_ok s"
  then have "hover_ok (hover_stage inp s)" by (rule hover_ok_stage)
  then show ?thesis
    using Animate hover_ok_view [OF hover_view_animate, of inp s] by simp
next
  case (Move f)
  assume "hover_ok s"
  then show ?thesis
    using Move hover_ok_view [OF hover_view_move, of f s] by simp
qed

lemma hover_ok_frame:
  assumes "hover_ok s"
  shows "hover_ok (frame inp s)"
proof (rule frame_induct)
  show "hover_ok (s\<lparr>raf_queue := []\<rparr>)"
    using assms by (simp add: hover_ok_def)
next
  fix cb st
  assume "hover_ok st"
  then show "hover_ok (run_callback inp cb st)"
    by (rule hover_ok_callback)
qed

lemma hover_ok_click: "onClick s = Inr t \<Longrightarrow> hover_ok s \<Longrightarrow> hover_ok t"
  by (auto simp add: onClick_def focusOn_def hover_ok_def move_lights
      split: option.splits if_splits)

lemma hover_ok_step: "hover_ok s \<Longrightarrow> hover_ok (step s ev)"
proof (cases ev)
  case Clicked
  assume "hover_ok s"
  then show ?thesis
    using Clicked hover_ok_click [of s] by (simp split: sum.splits)
next
  case (Frame inp)
  assume "hover_ok s"
  then show ?thesis using Frame by (simp add: hover_ok_frame)
next
  case (Camera_loaded g)
  assume "hover_ok s"
  then show ?thesis using Camera_loaded
    by (cases "macbookModel s") (auto simp add: hover_ok_def camera_loaded_def Let_def)
next
  case (Computer_loaded g)
  assume "hover_ok s"
  then show ?thesis using Computer_loaded
    by (cases "cameraModel s") (auto simp add: hover_ok_def computer_loaded_def Let_def)
qed (simp_all add: hover_ok_def handleResize_def
      destroy_def cancelAnimationFrame_def removeEventListener_def Let_def)

lemma hover_ok_run: "hover_ok s \<Longrightarrow> hover_ok (run s evs)"
  unfolding run_def by (induction evs arbitrary: s) (simp_all add: hover_ok_step)

lemma hover_ok_start: "hover_ok (threeSceneAction w h inp)"
  by (simp add: hover_ok_def threeSceneAction_def animate_targets animate_frame
      hover_stage_def Let_def)

section \<open>Hover and light targets\<close>

text \<open>
  The walk of lines 148-151 returns the nearest of the objects above the hit that is a
  loaded model. Loaded models are children of the scene, so none lies below another,
  and the walk returns the model the hit belongs to.
\<close>

lemma find_root_ancestors:
  "find_root models (parent t) = List.find (\<lambda>a. a \<in> set models) (ancestors t)"
proof (induction t)
  case (Node i p)
  show ?case
  proof (cases p)
    case None
    then show ?thesis by simp
  next
    case (Some q)
    obtain j r where q: "q = Node j r" by (cases q)
    have "find_root models (parent q) = List.find (\<lambda>a. a \<in> set models) (ancestors q)"
      using Node Some by simp
    then show ?thesis
      using Some q by simp
  qed
qed

lemma ancestors_chain:
  "ancestors t = xs @ a # ys \<Longrightarrow> ys = ancestors a"
proof (induction xs arbitrary: t)
  case Nil
  then show ?case by (cases t rule: ancestors.cases) simp_all
next
  case (Cons x xs)
  then show ?case by (cases t rule: ancestors.cases) simp_all
qed

lemma find_root_owner:
  assumes "m \<in> set (ancestors t)" "m \<in> set models"
    and "list_all (\<lambda>m. parent m = Some scene) models"
  shows "find_root models (parent t) = Some m"
proof -
  have s: "scene \<notin> set models"
    using assms(3) by (auto simp add: list_all_iff scene_def)
  from assms(1,2) obtain a where f: "List.find (\<lambda>a. a \<in> set models) (ancestors t) = Some a"
    by (cases "List.find (\<lambda>a. a \<in> set models) (ancestors t)") (auto simp add: find_None_iff)
  then obtain i where i: "i < length (ancestors t)" "ancestors t ! i = a" "a \<in> set models"
    and first: "\<forall>j<i. ancestors t ! j \<notin> set models"
    by (auto simp add: find_Some_iff)
  have "ancestors t = take i (ancestors t) @ a # drop (Suc i) (ancestors t)"
    using i id_take_nth_drop [of i "ancestors t"] by simp
  then have d: "drop (Suc i) (ancestors t) = ancestors a"
    by (rule ancestors_chain)
  have "parent a = Some scene"
    using assms(3) i(3) by (simp add: list_all_iff)
  then have a: "ancestors a = [scene]"
    by (cases a) (simp add: scene_def)
  from assms(1) obtain k where k: "k < length (ancestors t)" "ancestors t ! k = m"
    by (auto simp add: in_set_conv_nth)
  have "\<not> k < i" using first k(2) assms(2) by auto
  moreover have "\<not> i < k"
  proof
    assume "i < k"
    then obtain n where n: "k = Suc i + n" by (metis less_iff_Suc_add add_Suc)
    then have "m = drop (Suc i) (ancestors t) ! n"
      using k by simp
    moreover have "n < length (drop (Suc i) (ancestors t))"
      using k(1) n by simp
    ultimately have "m \<in> set (ancestors a)"
      unfolding d [symmetric] by (metis nth_mem)
    with a s assms(2) show False by simp
  qed
  ultimately have "k = i" by simp
  with i k f show ?thesis
    by (simp add: find_root_ancestors)
qed


lemma models_callback:
  "cameraModel (run_callback inp cb s) = cameraModel s"
  "macbookModel (run_callback inp cb s) = macbookModel s"
  by (cases cb; simp add: animate_frame move_lights)+

lemma rooted_frame:
  assumes "rooted s"
  shows "rooted (frame inp s)"
proof (rule frame_induct)
  show "rooted (s\<lparr>raf_queue := []\<rparr>)"
    using assms by (simp add: rooted_def)
next
  fix cb st
  assume "rooted st"
  then show "rooted (run_callback inp cb st)"
    by (simp add: rooted_def models_callback)
qed

lemma rooted_click: "onClick s = Inr t \<Longrightarrow> rooted s \<Longrightarrow> rooted t"
  by (auto simp add: onClick_def focusOn_def rooted_def move_lights
      split: option.splits if_splits)

lemma rooted_step: "rooted s \<Longrightarrow> rooted (step s ev)"
proof (cases ev)
  case Clicked
  assume "rooted s"
  then show ?thesis
    using Clicked rooted_click [of s] by (simp split: sum.splits)
next
  case (Frame inp)
  assume "rooted s"
  then show ?thesis using Frame by (simp add: rooted_frame)
next
  case (Camera_loaded g)
  assume "rooted s"
  then show ?thesis using Camera_loaded
    by (cases "cameraModel s"; cases "macbookModel s")
      (auto simp add: rooted_def camera_loaded_def Let_def)
next
  case (Computer_loaded g)
  assume "rooted s"
  then show ?thesis using Computer_loaded
    by (cases "cameraModel s"; cases "macbookModel s")
      (auto simp add: rooted_def computer_loaded_def Let_def)
qed (simp_all add: rooted_def handleResize_def
      destroy_def cancelAnimationFrame_def removeEventListener_def Let_def)

lemma rooted_run: "rooted s \<Longrightarrow> rooted (run s evs)"
  unfolding run_def by (induction evs arbitrary: s) (simp_all add: rooted_step)

lemma rooted_start: "rooted (threeSceneAction w h inp)"
  by (simp add: rooted_def threeSceneAction_def animate_frame Let_def)

lemma hover_stage_owner:
  assumes "rooted s" "hits inp = t # rest" "m \<in> set (ancestors t)"
  shows "cameraModel s = Some m \<Longrightarrow>
           hoveredObject (hover_stage inp s) = Some t
           \<and> cameraTargetIntensity (hover_stage inp s) = 2.5
           \<and> computerTargetIntensity (hover_stage inp s) = 0"
    and "macbookModel s = Some m \<Longrightarrow> cameraModel s \<noteq> Some m \<Longrightarrow>
           hoveredObject (hover_stage inp s) = Some t
           \<and> cameraTargetIntensity (hover_stage inp s) = 0
           \<and> computerTargetIntensity (hover_stage inp s) = 2.5"
proof -
  let ?models = "filter_Boolean [cameraModel s, macbookModel s]"
  have r: "list_all (\<lambda>m. parent m = Some scene) ?models"
    using assms(1) by (simp add: rooted_def)
  show "hoveredObject (hover_stage inp s) = Some t
      \<and> cameraTargetIntensity (hover_stage inp s) = 2.5
      \<and> computerTargetIntensity (hover_stage inp s) = 0" if c: "cameraModel s = Some m"
  proof -
    have "m \<in> set ?models" using c by simp
    from find_root_owner [OF assms(3) this r]
    show ?thesis
      using c assms(2) by (cases "macbookModel s")
        (simp_all add: hover_stage_def nullable_def uninitialised_def Let_def)
  qed
  show "hoveredObject (hover_stage inp s) = Some t
      \<and> cameraTargetIntensity (hover_stage inp s) = 0
      \<and> computerTargetIntensity (hover_stage inp s) = 2.5"
    if c: "macbookModel s = Some m" "cameraModel s \<noteq> Some m"
  proof -
    have "m \<in> set ?models" using c by (cases "cameraModel s") simp_all
    from find_root_owner [OF assms(3) this r]
    show ?thesis
      using c assms(2) by (cases "cameraModel s")
        (simp_all add: hover_stage_def nullable_def uninitialised_def Let_def)
  qed
qed

text \<open>
  The action does what the claim says. Take any state it reaches without clean-up,
  and run one more frame. If a loaded model is among the objects above the nearest
  hit, the hit is the hovered object, the target of that model's light is 2.5 and the
  other's is 0; if nothing is hit, nothing is hovered and both targets are 0. In every
  case at most one target is not 0.
\<close>

lemma action_hover_decides_light_targets:
  assumes "Destroyed \<notin> set evs"
  shows "(hits inp = t # rest \<and> m \<in> set (ancestors t)
          \<and> cameraModel (run (threeSceneAction w h i0) evs) = Some m
          \<longrightarrow> hoveredObject (step (run (threeSceneAction w h i0) evs) (Frame inp)) = Some t
              \<and> cameraTargetIntensity (step (run (threeSceneAction w h i0) evs) (Frame inp)) = 2.5
              \<and> computerTargetIntensity (step (run (threeSceneAction w h i0) evs) (Frame inp)) = 0)
       \<and> (hits inp = t # rest \<and> m \<in> set (ancestors t)
          \<and> macbookModel (run (threeSceneAction w h i0) evs) = Some m
          \<and> cameraModel (run (threeSceneAction w h i0) evs) \<noteq> Some m
          \<longrightarrow> hoveredObject (step (run (threeSceneAction w h i0) evs) (Frame inp)) = Some t
              \<and> cameraTargetIntensity (step (run (threeSceneAction w h i0) evs) (Frame inp)) = 0
              \<and> computerTargetIntensity (step (run (threeSceneAction w h i0) evs) (Frame inp)) = 2.5)
       \<and> (hits inp = []
          \<longrightarrow> hoveredObject (step (run (threeSceneAction w h i0) evs) (Frame inp)) = None
              \<and> cameraTargetIntensity (step (run (threeSceneAction w h i0) evs) (Frame inp)) = 0
              \<and> computerTargetIntensity (step (run (threeSceneAction w h i0) evs) (Frame inp)) = 0)
       \<and> (cameraTargetIntensity (step (run (threeSceneAction w h i0) evs) (Frame inp)) = 0
          \<or> computerTargetIntensity (step (run (threeSceneAction w h i0) evs) (Frame inp)) = 0)"
proof -
  define s where "s = run (threeSceneAction w h i0) evs"
  have ok: "hover_ok s"
    unfolding s_def by (rule hover_ok_run [OF hover_ok_start])
  have rt: "rooted s"
    unfolding s_def by (rule rooted_run [OF rooted_start])
  have "main_ticks (raf_queue s) = 1"
    unfolding s_def using assms by (simp add: main_ticks_run main_ticks_start)
  then have v: "hover_view (step s (Frame inp)) = hover_view (hover_stage inp s)"
    by (simp add: hover_view_frame)
  have ok': "hover_ok (step s (Frame inp))"
    using ok by (rule hover_ok_step)
  from v have f:
    "hoveredObject (step s (Frame inp)) = hoveredObject (hover_stage inp s)"
    "cameraTargetIntensity (step s (Frame inp)) = cameraTargetIntensity (hover_stage inp s)"
    "computerTargetIntensity (step s (Frame inp)) = computerTargetIntensity (hover_stage inp s)"
    by (simp_all add: hover_view_def del: step.simps)
  note a = hover_stage_owner(1) [OF rt] and b = hover_stage_owner(2) [OF rt]
  have c: "hoveredObject (hover_stage inp s) = None
      \<and> cameraTargetIntensity (hover_stage inp s) = 0
      \<and> computerTargetIntensity (hover_stage inp s) = 0"
    if "hits inp = []"
    using that ok by (simp add: hover_stage_def hover_ok_def Let_def)
  have d: "cameraTargetIntensity (step s (Frame inp)) = 0
      \<or> computerTargetIntensity (step s (Frame inp)) = 0"
    using ok' unfolding hover_ok_def by blast
  show ?thesis
    unfolding s_def [symmetric] f using a b c d [unfolded f] by blast
qed

text \<open>
  For instance on the ring, two levels below the camera model, on the screen of the
  computer, and when the pointer has left the model.
\<close>

lemma action_hover_reaches_deeper_mesh:
  "cameraTargetIntensity (step (run (threeSceneAction 800 400 quiet)
         [Camera_loaded camera_gltf]) (Frame (pointing_at ring))) = 2.5
   \<and> computerTargetIntensity (step (run (threeSceneAction 800 400 quiet)
         [Camera_loaded camera_gltf]) (Frame (pointing_at ring))) = 0
   \<and> hoveredObject (step (run (threeSceneAction 800 400 quiet)
         [Camera_loaded camera_gltf]) (Frame (pointing_at ring))) = Some ring
   \<and> cameraTargetIntensity (step (run (threeSceneAction 800 400 quiet)
         [Computer_loaded computer_gltf]) (Frame (pointing_at screen))) = 0
   \<and> computerTargetIntensity (step (run (threeSceneAction 800 400 quiet)
         [Computer_loaded computer_gltf]) (Frame (pointing_at screen))) = 2.5
   \<and> hoveredObject (step (run (threeSceneAction 800 400 quiet)
         [Camera_loaded camera_gltf, Frame (pointing_at ring)]) (Frame quiet)) = None
   \<and> cameraTargetIntensity (step (run (threeSceneAction 800 400 quiet)
         [Camera_loaded camera_gltf, Frame (pointing_at ring)]) (Frame quiet)) = 0"
proof -
  have r: "run (threeSceneAction 800 400 quiet) [Camera_loaded camera_gltf] = camera_ready"
    "run (threeSceneAction 800 400 quiet) [Computer_loaded computer_gltf] = computer_ready"
    by (simp_all add: run_def camera_ready_def computer_ready_def)
  have h: "hits (pointing_at ring) = [ring]" "hits (pointing_at screen) = [screen]"
    "hits quiet = []"
    by (simp_all add: pointing_at_def quiet_def)
  have m: "cameraModel camera_ready = Some (Node 10 (Some scene))"
    "macbookModel camera_ready = None"
    "cameraModel computer_ready = None"
    "macbookModel computer_ready = Some (Node 20 (Some scene))"
    by (simp_all add: camera_ready_state computer_ready_state)
  have p: "Node 10 (Some scene) \<in> set (ancestors ring)"
    "Node 20 (Some scene) \<in> set (ancestors screen)"
    by (simp_all add: ring_def lens_def screen_def)
  have d: "Destroyed \<notin> set [Camera_loaded camera_gltf]"
    "Destroyed \<notin> set [Computer_loaded computer_gltf]"
    "Destroyed \<notin> set [Camera_loaded camera_gltf, Frame (pointing_at ring)]"
    by simp_all
  have 1: "hoveredObject (step camera_ready (Frame (pointing_at ring))) = Some ring
     \<and> cameraTargetIntensity (step camera_ready (Frame (pointing_at ring))) = 2.5
     \<and> computerTargetIntensity (step camera_ready (Frame (pointing_at ring))) = 0"
    using action_hover_decides_light_targets [OF d(1), where inp = "pointing_at ring"
        and t = ring and rest = "[]" and m = "Node 10 (Some scene)" and w = 800 and h = 400
        and ?i0.0 = quiet]
    unfolding r by (simp add: h m p del: step.simps)
  have 2: "hoveredObject (step computer_ready (Frame (pointing_at screen))) = Some screen
     \<and> cameraTargetIntensity (step computer_ready (Frame (pointing_at screen))) = 0
     \<and> computerTargetIntensity (step computer_ready (Frame (pointing_at screen))) = 2.5"
    using action_hover_decides_light_targets [OF d(2), where inp = "pointing_at screen"
        and t = screen and rest = "[]" and m = "Node 20 (Some scene)" and w = 800 and h = 400
        and ?i0.0 = quiet]
    unfolding r by (simp add: h m p del: step.simps)
  have 3: "hoveredObject (step (run (threeSceneAction 800 400 quiet)
         [Camera_loaded camera_gltf, Frame (pointing_at ring)]) (Frame quiet)) = None
     \<and> cameraTargetIntensity (step (run (threeSceneAction 800 400 quiet)
         [Camera_loaded camera_gltf, Frame (pointing_at ring)]) (Frame quiet)) = 0"
    using action_hover_decides_light_targets [OF d(3), where inp = quiet and w = 800
        and h = 400 and ?i0.0 = quiet]
    by (simp add: h del: step.simps)
  show ?thesis
    unfolding r using 1 2 3 by simp
qed

text \<open>
  The second component in the two sample situations: the ring is hovered, and the
  lights are as the frame before left them.
\<close>

lemma hovering_ring_onMount_state:
  "cameraModel hovering_ring_onMount = Some (Node 10 (Some scene))"
  "hoveredObject hovering_ring_onMount = Some ring"
  "cameraGlow hovering_ring_onMount = 0"
  "computerGlow hovering_ring_onMount = 0"
  by (simp_all add: hovering_ring_onMount_def ring_def onMount_defs)

lemma leaving_screen_onMount_state:
  "cameraModel leaving_screen_onMount = Some (Node 10 (Some scene))"
  "macbookModel leaving_screen_onMount = Some (Node 20 (Some scene))"
  "hoveredObject leaving_screen_onMount = Some ring"
  "cameraGlow leaving_screen_onMount = 0"
  "computerGlow leaving_screen_onMount = 2"
  by (simp_all add: leaving_screen_onMount_def ring_def onMount_defs
        computer_loaded_onMount_def computer_gltf_def screen_def)

text \<open>
  Claim C4 fails on the second component (lines 364-387), which looks at the parent
  of the hit only. The ring is the nearest hit and the camera model is among the
  objects above it, so it belongs to the camera model. With the camera model loaded,
  after one frame the ring is the hovered object and the camera light is still 0. With
  both models loaded and the pointer coming from the screen of the computer, the ring
  is the hovered object, the camera light is 0 and the light of the computer, the
  other model, is still 2.
\<close>

theorem hover_onMount_misses_deeper_mesh:
  "hits (pointing_at ring) = [ring]
   \<and> Node 10 (Some scene) \<in> set (ancestors ring)
   \<and> cameraModel hovering_ring_onMount = Some (Node 10 (Some scene))
   \<and> hoveredObject hovering_ring_onMount = Some ring
   \<and> cameraGlow hovering_ring_onMount = 0
   \<and> computerGlow hovering_ring_onMount = 0
   \<and> cameraModel leaving_screen_onMount = Some (Node 10 (Some scene))
   \<and> hoveredObject leaving_screen_onMount = Some ring
   \<and> cameraGlow leaving_screen_onMount = 0
   \<and> computerGlow leaving_screen_onMount = 2"
  by (simp add: hovering_ring_onMount_state leaving_screen_onMount_state)
    (simp add: pointing_at_def quiet_def ring_def lens_def)

section \<open>Focus animations across frames\<close>

lemma move_console:
  "console (move f s) =
     (if progress f + 0.02 / duration < 1 then console s
      else console s @ [[''Open portfolio:'', portfolio f]])"
  by (simp add: move_def requestAnimationFrame_def Let_def)

lemma move_queue:
  "raf_queue (move f s) =
     (if progress f + 0.02 / duration < 1
      then raf_queue s @
        [(next_raf s, Move (f\<lparr>progress := progress f + 0.02 / duration,
                               focusAnimationId := Some (next_raf s)\<rparr>))]
      else raf_queue s)"
  "next_raf (move f s) =
     (if progress f + 0.02 / duration < 1 then next_raf s + 1 else next_raf s)"
  by (simp_all add: move_def requestAnimationFrame_def Let_def)

lemma fold_focus:
  "console (foldl (\<lambda>st (i, cb). run_callback inp cb st) st q)
     = console st @ signals (map closure_vars (running q))
   \<and> map closure_vars (running (raf_queue (foldl (\<lambda>st (i, cb). run_callback inp cb st) st q)))
     = map closure_vars (running (raf_queue st)) @ advance_all (map closure_vars (running q))"
proof (induction q arbitrary: st rule: running.induct)
  case 1
  show ?case by simp
next
  case (2 i q)
  show ?case
    using 2 [of "animate inp st"] by (simp add: animate_frame running_append)
next
  case (3 i f q)
  show ?case
    using 3 [of "move f st"]
    by (simp add: move_console move_queue running_append closure_vars_def)
qed

lemma frame_focus:
  "console (frame inp s) = console s @ signals (map closure_vars (running (raf_queue s)))"
  "map closure_vars (running (raf_queue (frame inp s)))
     = advance_all (map closure_vars (running (raf_queue s)))"
  using fold_focus [of inp "s\<lparr>raf_queue := []\<rparr>" "raf_queue s"]
  by (simp_all add: frame_def)


lemma ids_ok_animate: "ids_ok s \<Longrightarrow> ids_ok (animate inp s)"
  by (auto simp add: ids_ok_def animate_frame list_all_iff split: callback.splits)

lemma ids_ok_move: "ids_ok s \<Longrightarrow> ids_ok (move f s)"
  by (auto simp add: ids_ok_def move_queue move_lights list_all_iff split: callback.splits)

lemma ids_ok_frame:
  assumes "ids_ok s"
  shows "ids_ok (frame inp s)"
proof (rule frame_induct)
  show "ids_ok (s\<lparr>raf_queue := []\<rparr>)"
    using assms by (simp add: ids_ok_def)
next
  fix cb st
  assume "ids_ok st"
  then show "ids_ok (run_callback inp cb st)"
    by (cases cb) (simp_all add: ids_ok_animate ids_ok_move)
qed

lemma ids_ok_click: "onClick s = Inr t \<Longrightarrow> ids_ok s \<Longrightarrow> ids_ok t"
  by (auto simp add: onClick_def focusOn_def ids_ok_move split: option.splits if_splits)

lemma ids_ok_step: "ids_ok s \<Longrightarrow> ids_ok (step s ev)"
proof (cases ev)
  case Clicked
  assume "ids_ok s"
  then show ?thesis
    using Clicked ids_ok_click [of s] by (simp split: sum.splits)
next
  case (Frame inp)
  assume "ids_ok s"
  then show ?thesis using Frame by (simp add: ids_ok_frame)
next
  case Destroyed
  assume "ids_ok s"
  then show ?thesis using Destroyed
    by (auto simp add: ids_ok_def destroy_def cancelAnimationFrame_def removeEventListener_def
        Let_def list_all_iff split: callback.splits)
qed (auto simp add: ids_ok_def camera_loaded_def computer_loaded_def handleResize_def Let_def
      list_all_iff split: callback.splits)

lemma ids_ok_run: "ids_ok s \<Longrightarrow> ids_ok (run s evs)"
  unfolding run_def by (induction evs arbitrary: s) (simp_all add: ids_ok_step)

lemma ids_ok_start: "ids_ok (threeSceneAction w h inp)"
  by (simp add: ids_ok_def threeSceneAction_def animate_frame Let_def)

lemma running_filter_ids:
  "list_all (\<lambda>(i, cb). case cb of Animate \<Rightarrow> True | Move f \<Rightarrow> i \<noteq> a) q \<Longrightarrow>
   running (filter (\<lambda>(j, cb). j \<noteq> a) q) = running q"
  by (induction q rule: running.induct) simp_all

lemma destroy_focus:
  assumes "ids_ok s"
  shows "running (raf_queue (destroy s)) = running (raf_queue s)"
    and "console (destroy s) = console s"
proof -
  have "list_all (\<lambda>(i, cb). case cb of Animate \<Rightarrow> True | Move f \<Rightarrow> i \<noteq> animationFrameId s)
          (raf_queue s)"
    using assms by (auto simp add: ids_ok_def list_all_iff)
  then show "running (raf_queue (destroy s)) = running (raf_queue s)"
    by (simp add: destroy_def cancelAnimationFrame_def removeEventListener_def Let_def
        running_filter_ids)
  show "console (destroy s) = console s"
    by (simp add: destroy_def cancelAnimationFrame_def removeEventListener_def Let_def)
qed

text \<open>Every event but a click leaves the focus animations to the frames.\<close>

lemma step_focus:
  assumes "ids_ok s" and "ev \<noteq> Clicked"
  shows "console (step s ev) =
           (case ev of Frame inp \<Rightarrow> console s @ signals (map closure_vars (running (raf_queue s)))
            | _ \<Rightarrow> console s)"
    and "map closure_vars (running (raf_queue (step s ev))) =
           (case ev of Frame inp \<Rightarrow> advance_all (map closure_vars (running (raf_queue s)))
            | _ \<Rightarrow> map closure_vars (running (raf_queue s)))"
  using assms
  by (cases ev; simp add: frame_focus destroy_focus camera_loaded_def computer_loaded_def
      handleResize_def Let_def)+


lemma sixty_ticks:
  "((real k + 1) / 60 + 1 / (50 * duration) < 1) = (k < 58)"
  "(real k + 1) / 60 + 1 / (50 * duration) = (real (Suc k) + 1) / 60"
  by (simp_all add: duration_def field_simps)

lemma focus_countdown:
  assumes "ids_ok st" and "Clicked \<notin> set evs"
    and "console st = c @ (if 59 \<le> k then [[''Open portfolio:'', key]] else [])"
    and "map closure_vars (running (raf_queue st)) =
           (if k < 59 then [(a, b, (real k + 1) / 60, key)] else [])"
  shows "console (run st evs) =
           c @ (if 59 \<le> k + frame_count evs then [[''Open portfolio:'', key]] else [])
       \<and> map closure_vars (running (raf_queue (run st evs))) =
           (if k + frame_count evs < 59
            then [(a, b, (real (k + frame_count evs) + 1) / 60, key)] else [])"
  using assms
proof (induction evs arbitrary: st k)
  case Nil
  then show ?case by (simp add: run_def)
next
  case (Cons ev evs)
  have ev: "ev \<noteq> Clicked" and evs: "Clicked \<notin> set evs"
    using Cons.prems(2) by auto
  have ok: "ids_ok (step st ev)"
    using Cons.prems(1) by (rule ids_ok_step)
  have r: "run st (ev # evs) = run (step st ev) evs"
    by (simp add: run_def)
  show ?case
  proof (cases "\<exists>inp. ev = Frame inp")
    case True
    then obtain inp where Frame: "ev = Frame inp" by blast
    have c1: "console (step st ev) =
        c @ (if 59 \<le> Suc k then [[''Open portfolio:'', key]] else [])"
      using step_focus(1) [OF Cons.prems(1) ev] Frame Cons.prems(3,4)
      by (auto simp add: sixty_ticks simp del: step.simps)
    have c2: "map closure_vars (running (raf_queue (step st ev))) =
        (if Suc k < 59 then [(a, b, (real (Suc k) + 1) / 60, key)] else [])"
      using step_focus(2) [OF Cons.prems(1) ev] Frame Cons.prems(4)
      by (auto simp add: sixty_ticks simp del: step.simps)
    have n: "k + frame_count (ev # evs) = Suc k + frame_count evs"
      using Frame by simp
    from Cons.IH [OF ok evs c1 c2] show ?thesis
      unfolding r n .
  next
    case False
    have c1: "console (step st ev) =
        c @ (if 59 \<le> k then [[''Open portfolio:'', key]] else [])"
      using step_focus(1) [OF Cons.prems(1) ev] False Cons.prems(3)
      by (cases ev) (simp_all del: step.simps)
    have c2: "map closure_vars (running (raf_queue (step st ev))) =
        (if k < 59 then [(a, b, (real k + 1) / 60, key)] else [])"
      using step_focus(2) [OF Cons.prems(1) ev] False Cons.prems(4)
      by (cases ev) (simp_all del: step.simps)
    have n: "frame_count (ev # evs) = frame_count evs"
      using False by (cases ev) simp_all
    from Cons.IH [OF ok evs c1 c2] show ?thesis
      unfolding r n .
  qed
qed


lemma click_subject_key:
  "click_subject s = Some (m, key) \<Longrightarrow>
   (cameraModel s = Some m \<and> key = ''photography'')
   \<or> (macbookModel s = Some m \<and> key = ''computerscience'')"
  by (auto simp add: click_subject_def split: option.splits if_splits)

lemma clicked_on_subject:
  assumes "Click \<in> set (listeners s)" and "click_subject s = Some (m, key)"
  shows "step s Clicked =
     s\<lparr>camera_position :=
         lerpVectors (camera_position s) (add_vec (world_position s m) (0, 0.5, 2))
           (0.02 / duration),
       raf_queue := raf_queue s @
         [(next_raf s,
           Move \<lparr>fstart = camera_position s,
                 fend = add_vec (world_position s m) (0, 0.5, 2),
                 progress = 0.02 / duration, portfolio = key,
                 focusAnimationId = Some (next_raf s)\<rparr>)],
       next_raf := next_raf s + 1\<rparr>"
  using assms onClick_subject [of s] by (simp add: focusOn_Some)

text \<open>
  Claim C3. Take any state the action reaches from its start in which no focus
  animation is in flight, and a click there on a hovered child or grandchild of a
  loaded model \<open>m\<close>. Whatever follows, short of another click (frames with any input,
  loads, resizes, clean-up), the log gains exactly one entry for this animation, the
  entry carries the key of \<open>m\<close> (\<open>photography\<close> for the camera model, \<open>computerscience\<close>
  for the computer model), and it is there from the 59th frame after the click on, which
  is the 60th call of \<^verbatim>\<open>move\<close> and the one that ends the animation; before that frame
  the animation is in flight and nothing has been logged for it.
\<close>

theorem focus_signals_once_on_completion:
  assumes "s = run (threeSceneAction w h i0) before"
    and "Click \<in> set (listeners s)"
    and "click_subject s = Some (m, key)"
    and "running (raf_queue s) = []"
    and "Clicked \<notin> set after"
  shows "console (run (step s Clicked) after) =
           console s @
             (if 59 \<le> frame_count after then [[''Open portfolio:'', key]] else [])
       \<and> map portfolio (running (raf_queue (run (step s Clicked) after))) =
           (if frame_count after < 59 then [key] else [])
       \<and> ((cameraModel s = Some m \<and> key = ''photography'')
          \<or> (macbookModel s = Some m \<and> key = ''computerscience''))"
proof -
  have "ids_ok s"
    unfolding assms(1) by (rule ids_ok_run [OF ids_ok_start])
  then have ok: "ids_ok (step s Clicked)"
    by (rule ids_ok_step)
  have c: "console (step s Clicked) =
      console s @ (if 59 \<le> (0::nat) then [[''Open portfolio:'', key]] else [])"
    unfolding clicked_on_subject [OF assms(2,3)] by simp
  have v: "map closure_vars (running (raf_queue (step s Clicked))) =
      (if (0::nat) < 59
       then [(camera_position s, add_vec (world_position s m) (0, 0.5, 2),
              (real 0 + 1) / 60, key)]
       else [])"
    unfolding clicked_on_subject [OF assms(2,3)]
    using assms(4) by (simp add: running_append closure_vars_def duration_def)
  from focus_countdown [OF ok assms(5) c v]
  have l: "console (run (step s Clicked) after) =
           console s @
             (if 59 \<le> frame_count after then [[''Open portfolio:'', key]] else [])"
    and r: "map closure_vars (running (raf_queue (run (step s Clicked) after))) =
           (if frame_count after < 59
            then [(camera_position s, add_vec (world_position s m) (0, 0.5, 2),
                   (real (frame_count after) + 1) / 60, key)]
            else [])"
    by (simp_all del: step.simps)
  have p: "map portfolio q = map (\<lambda>(a, b, p, k). k) (map closure_vars q)" for q
    by (simp add: closure_vars_def)
  have "map portfolio (running (raf_queue (run (step s Clicked) after))) =
           (if frame_count after < 59 then [key] else [])"
    unfolding p r by simp
  with l click_subject_key [OF assms(3)] show ?thesis
    by blast
qed


lemma frame_count_replicate: "frame_count (replicate n (Frame inp)) = n"
  by (induction n) simp_all

theorem focus_signals_once_on_completion_witness:
  "hovering = run (threeSceneAction 800 400 quiet)
                [Camera_loaded camera_gltf, Frame (pointing_at lens)]
   \<and> Click \<in> set (listeners hovering)
   \<and> click_subject hovering = Some (Node 10 (Some scene), ''photography'')
   \<and> running (raf_queue hovering) = []
   \<and> Clicked \<notin> set (replicate 58 (Frame quiet))
   \<and> Clicked \<notin> set (replicate 59 (Frame quiet) @ [Destroyed, Frame quiet])
   \<and> console (run (step hovering Clicked) (replicate 58 (Frame quiet))) = []
   \<and> map portfolio (running (raf_queue
         (run (step hovering Clicked) (replicate 58 (Frame quiet))))) = [''photography'']
   \<and> console (run (step hovering Clicked)
         (replicate 59 (Frame quiet) @ [Destroyed, Frame quiet])) =
       [[''Open portfolio:'', ''photography'']]
   \<and> map portfolio (running (raf_queue
         (run (step hovering Clicked)
           (replicate 59 (Frame quiet) @ [Destroyed, Frame quiet])))) = []
   \<and> cameraModel hovering = Some (Node 10 (Some scene))"
proof -
  have s: "hovering = run (threeSceneAction 800 400 quiet)
                [Camera_loaded camera_gltf, Frame (pointing_at lens)]"
    by (simp add: hovering_def camera_ready_def run_def)
  have l: "Click \<in> set (listeners hovering)" "running (raf_queue hovering) = []"
    "console hovering = []" "cameraModel hovering = Some (Node 10 (Some scene))"
    by (simp_all add: hovering_state)
  have a: "Clicked \<notin> set (replicate 58 (Frame quiet))"
    "Clicked \<notin> set (replicate 59 (Frame quiet) @ [Destroyed, Frame quiet])"
    by simp_all
  have n2: "frame_count (xs @ ys) = frame_count xs + frame_count ys" for xs ys
    by (induction xs rule: frame_count.induct) simp_all
  have n: "frame_count (replicate 58 (Frame quiet)) = 58"
    "frame_count (replicate 59 (Frame quiet) @ [Destroyed, Frame quiet]) = 60"
    by (simp_all add: frame_count_replicate n2)
  show ?thesis
    using focus_signals_once_on_completion [OF s l(1) hovering_subject l(2) a(1)]
      focus_signals_once_on_completion [OF s l(1) hovering_subject l(2) a(2)]
      s l a hovering_subject
    unfolding n by (simp del: step.simps)
qed


section \<open>Clean-up\<close>

lemma destroy_effect:
  "listeners (destroy s) = []"
  "renderer_disposed (destroy s) = renderer_disposed s + 1"
  "controls_disposed (destroy s) = controls_disposed s + 1"
  "disposed (destroy s) = disposed s @ dispose_meshes (scene_meshes s)"
  "raf_queue (destroy s) = filter (\<lambda>(j, cb). j \<noteq> animationFrameId s) (raf_queue s)"
  "camera_position (destroy s) = camera_position s"
proof -
  have "removeAll Resize (removeAll Click (removeAll Mousemove ls)) = []" for ls
  proof (induction ls)
    case Nil
    show ?case by simp
  next
    case (Cons l ls)
    then show ?case by (cases l) simp_all
  qed
  then show "listeners (destroy s) = []"
    by (simp add: destroy_def removeEventListener_def cancelAnimationFrame_def Let_def)
qed (simp_all add: destroy_def removeEventListener_def cancelAnimationFrame_def Let_def)

text \<open>With nothing scheduled, a frame changes nothing.\<close>

lemma idle_frame: "raf_queue s = [] \<Longrightarrow> frame inp s = s"
  by (simp add: frame_def)

lemma torn_down_state:
  "torn_down =
     \<lparr>camera_position = (73 / 150, 1 / 120, 61 / 60),
      camera_aspect = Num 2, projection_aspect = Num 2,
      renderer_size = (800, 400), renderer_disposed = 1, controls_disposed = 1,
      frames = [(0.5, 0, 1), (0.5, 0, 1)], cameraGlow = 0.2, computerGlow = 0,
      cameraModel = Some (Node 10 (Some scene)), macbookModel = None,
      hoveredObject = Some lens,
      cameraTargetIntensity = 2.5, computerTargetIntensity = 0,
      animationFrameId = 2,
      raf_queue = [(3, Move \<lparr>fstart = (0.5, 0, 1), fend = (- 0.3, 0.5, 2),
                            progress = 1 / 60, portfolio = ''photography'',
                            focusAnimationId = Some 3\<rparr>)],
      next_raf = 4,
      listeners = [], console = [],
      scene_meshes = [\<lparr>geometry = FloorGeo, material = FloorMat\<rparr>,
                      \<lparr>geometry = Loaded 1, material = Loaded 2\<rparr>],
      disposed = [FloorGeo, FloorMat, Loaded 1, Loaded 2],
      world_position = (\<lambda>n. (0, 0, 0))(Node 10 (Some scene) := (- 0.3, 0, 0)),
      first_child = (\<lambda>n. None)\<rparr>"
  by (simp add: torn_down_def focusing_state destroy_def cancelAnimationFrame_def
      removeEventListener_def dispose_meshes_def Let_def)

text \<open>
  Claim C6 fails on the action. After a click on the hovered camera model, clean-up
  cancels the main loop, removes the three listeners and disposes of every mesh once,
  but the \<^verbatim>\<open>move\<close> of the focus animation stays scheduled: the next frame moves the
  camera, and the 59th frame after the click logs the portfolio key.
\<close>

theorem teardown_leaves_focus_running:
  "listeners torn_down = []
   \<and> main_ticks (raf_queue torn_down) = 0
   \<and> disposed torn_down = [FloorGeo, FloorMat, Loaded 1, Loaded 2]
   \<and> map portfolio (running (raf_queue torn_down)) = [''photography'']
   \<and> camera_position torn_down = (73 / 150, 1 / 120, 61 / 60)
   \<and> camera_position (step torn_down (Frame quiet)) = (71 / 150, 1 / 60, 31 / 30)
   \<and> console (run torn_down (replicate 59 (Frame quiet))) =
       [[''Open portfolio:'', ''photography'']]"
proof -
  have a: "Clicked \<notin> set (replicate 59 (Frame quiet))"
    by simp
  have b: "ids_ok torn_down"
    by (simp add: torn_down_state ids_ok_def)
  have c: "console torn_down =
      [] @ (if 59 \<le> (0::nat) then [[''Open portfolio:'', ''photography'']] else [])"
    by (simp add: torn_down_state)
  have d: "map closure_vars (running (raf_queue torn_down)) =
      (if (0::nat) < 59 then [((0.5, 0, 1), (- 0.3, 0.5, 2), (real 0 + 1) / 60, ''photography'')]
       else [])"
    by (simp add: torn_down_state closure_vars_def)
  have "console (run torn_down (replicate 59 (Frame quiet))) =
       [[''Open portfolio:'', ''photography'']]"
    using focus_countdown [OF b a c d] by (simp add: frame_count_replicate)
  moreover have "camera_position (step torn_down (Frame quiet)) = (71 / 150, 1 / 60, 31 / 30)"
    by (simp add: torn_down_state frame_def move_camera duration_def)
  moreover have "listeners torn_down = []" "main_ticks (raf_queue torn_down) = 0"
    "disposed torn_down = [FloorGeo, FloorMat, Loaded 1, Loaded 2]"
    "map portfolio (running (raf_queue torn_down)) = [''photography'']"
    "camera_position torn_down = (73 / 150, 1 / 120, 61 / 60)"
    by (simp_all add: torn_down_state)
  ultimately show ?thesis
    by blast
qed


section \<open>The end of a focus animation\<close>

text \<open>
  Progress grows by \<open>0.02 / duration\<close>, which is \<open>1 / 60\<close>, at every call of \<^verbatim>\<open>move\<close>,
  and the call that ends the animation is the one that takes it from \<open>59 / 60\<close> to
  exactly \<open>1\<close>, over exact reals. Progress is never clamped.
\<close>

lemma progress_grows: "p < p + 0.02 / duration"
  by (simp add: duration_def)

lemma progress_ends_at_one: "59 / 60 + 0.02 / duration = 1"
  by (simp add: duration_def)

text \<open>
  What the last call of \<^verbatim>\<open>move\<close> does to the camera: the action copies the end
  position (line 199), the second component writes nothing (lines 407-410).
\<close>

lemma move_snaps_to_end:
  "\<not> progress f + 0.02 / duration < 1 \<Longrightarrow>
   camera_position (move f s) = fend f
   \<and> console (move f s) = console s @ [[''Open portfolio:'', portfolio f]]"
  by (simp add: move_def Let_def)

lemma move_onMount_leaves_camera:
  "\<not> progress f + 0.02 / duration < 1 \<Longrightarrow>
   camera_position (move_onMount f s) = camera_position s
   \<and> console (move_onMount f s) = console s @ [[''Open portfolio:'', portfolio f]]"
  by (simp add: move_onMount_def Let_def)

lemma in_flight_queue:
  assumes "in_flight a b key k s"
  shows "\<exists>i j f. raf_queue s = [(i, Animate), (j, Move f)]
     \<and> fstart f = a \<and> fend f = b \<and> progress f = (real k + 1) / 60 \<and> portfolio f = key"
proof -
  let ?v = "\<lambda>(i, cb). case cb of Animate \<Rightarrow> None | Move f \<Rightarrow> Some (closure_vars f)"
  from assms obtain x y where q: "raf_queue s = [x, y]"
    and x: "?v x = None" and y: "?v y = Some (a, b, (real k + 1) / 60, key)"
    unfolding in_flight_def by (auto simp add: map_eq_Cons_conv)
  obtain i c where xc: "x = (i, c)" by (cases x)
  obtain j d where yd: "y = (j, d)" by (cases y)
  from x xc have c: "c = Animate" by (cases c) simp_all
  from y yd obtain f where d: "d = Move f"
    and f: "closure_vars f = (a, b, (real k + 1) / 60, key)"
    by (cases d) simp_all
  from f have "fstart f = a \<and> fend f = b \<and> progress f = (real k + 1) / 60 \<and> portfolio f = key"
    by (simp add: closure_vars_def)
  with q xc yd c d show ?thesis by blast
qed

lemma animate_onMount_frame:
  "camera_position (animate_onMount inp s) = orbit inp (camera_position s)"
  "console (animate_onMount inp s) = console s"
  "raf_queue (animate_onMount inp s) = raf_queue s @ [(next_raf s, Animate)]"
  "next_raf (animate_onMount inp s) = next_raf s + 1"
  by (auto simp add: animate_onMount_def hover_stage_onMount_def requestAnimationFrame_def
      Let_def split: list.splits sum.splits if_splits)

lemma move_onMount_frame:
  "camera_position (move_onMount f s) =
     (if progress f + 0.02 / duration < 1
      then lerpVectors (fstart f) (fend f) (progress f + 0.02 / duration)
      else camera_position s)"
  "console (move_onMount f s) =
     (if progress f + 0.02 / duration < 1 then console s
      else console s @ [[''Open portfolio:'', portfolio f]])"
  "raf_queue (move_onMount f s) =
     (if progress f + 0.02 / duration < 1
      then raf_queue s @ [(next_raf s, Move (f\<lparr>progress := progress f + 0.02 / duration\<rparr>))]
      else raf_queue s)"
  by (simp_all add: move_onMount_def requestAnimationFrame_def Let_def)

text \<open>One frame of the second component with an animation in flight.\<close>

lemma frame_onMount_in_flight:
  assumes "in_flight a b key k s"
  shows "k < 58 \<Longrightarrow> in_flight a b key (Suc k) (frame_onMount inp s)"
    and "k < 58 \<Longrightarrow>
           camera_position (frame_onMount inp s) = lerpVectors a b ((real (Suc k) + 1) / 60)"
    and "k < 58 \<Longrightarrow> console (frame_onMount inp s) = console s"
    and "\<not> k < 58 \<Longrightarrow> camera_position (frame_onMount inp s) = orbit inp (camera_position s)"
    and "\<not> k < 58 \<Longrightarrow>
           console (frame_onMount inp s) = console s @ [[''Open portfolio:'', key]]"
    and "\<not> k < 58 \<Longrightarrow> running (raf_queue (frame_onMount inp s)) = []"
proof -
  obtain i j f where q: "raf_queue s = [(i, Animate), (j, Move f)]"
    and f: "fstart f = a" "fend f = b" "progress f = (real k + 1) / 60" "portfolio f = key"
    using in_flight_queue [OF assms] by blast
  have t: "frame_onMount inp s = move_onMount f (animate_onMount inp (s\<lparr>raf_queue := []\<rparr>))"
    by (simp add: frame_onMount_def q)
  show "k < 58 \<Longrightarrow> in_flight a b key (Suc k) (frame_onMount inp s)"
    unfolding t in_flight_def
    by (simp add: move_onMount_frame animate_onMount_frame f sixty_ticks closure_vars_def)
  show "k < 58 \<Longrightarrow>
      camera_position (frame_onMount inp s) = lerpVectors a b ((real (Suc k) + 1) / 60)"
    unfolding t by (simp add: move_onMount_frame f sixty_ticks)
  show "k < 58 \<Longrightarrow> console (frame_onMount inp s) = console s"
    unfolding t by (simp add: move_onMount_frame animate_onMount_frame f sixty_ticks)
  show "\<not> k < 58 \<Longrightarrow> camera_position (frame_onMount inp s) = orbit inp (camera_position s)"
    unfolding t by (simp add: move_onMount_frame animate_onMount_frame f sixty_ticks)
  show "\<not> k < 58 \<Longrightarrow>
      console (frame_onMount inp s) = console s @ [[''Open portfolio:'', key]]"
    unfolding t by (simp add: move_onMount_frame animate_onMount_frame f sixty_ticks)
  show "\<not> k < 58 \<Longrightarrow> running (raf_queue (frame_onMount inp s)) = []"
    unfolding t by (simp add: move_onMount_frame animate_onMount_frame f sixty_ticks)
qed

lemma frames_onMount_in_flight:
  "in_flight a b key k s \<Longrightarrow> k + Suc n \<le> 58 \<Longrightarrow>
   in_flight a b key (k + Suc n) (run_onMount s (replicate (Suc n) (Frame inp)))
   \<and> camera_position (run_onMount s (replicate (Suc n) (Frame inp))) =
       lerpVectors a b ((real (k + Suc n) + 1) / 60)
   \<and> console (run_onMount s (replicate (Suc n) (Frame inp))) = console s"
proof (induction n arbitrary: k s)
  case 0
  then show ?case
    using frame_onMount_in_flight(1-3) [of a b key k s inp]
    by (simp add: run_onMount_def)
next
  case (Suc n)
  have k: "k < 58" using Suc.prems(2) by simp
  have r: "run_onMount s (replicate (Suc (Suc n)) (Frame inp)) =
      run_onMount (frame_onMount inp s) (replicate (Suc n) (Frame inp))"
    by (simp add: run_onMount_def)
  have "in_flight a b key (Suc k) (frame_onMount inp s)"
    using frame_onMount_in_flight(1) [OF Suc.prems(1) k] .
  from Suc.IH [OF this] Suc.prems(2) frame_onMount_in_flight(3) [OF Suc.prems(1) k, of inp]
  show ?case
    unfolding r by simp
qed

lemma focusing_onMount_state:
  "in_flight (0.5, 0, 4) (- 0.5, 0.5, 2) ''photography'' 0 focusing_onMount"
  "console focusing_onMount = []"
  by (simp_all add: focusing_onMount_def hovering_onMount_def onMount_defs in_flight_def
      closure_vars_def)

text \<open>
  Claim C2 fails on the second component. After a click on the hovered camera model
  and 59 frames with idle controls, the animation has ended and its key is logged, but
  the camera stands at the interpolation for progress \<open>59 / 60\<close>, not at the end
  position \<open>(-0.5, 0.5, 2)\<close> the animation was started with.
\<close>

theorem focus_onMount_stops_short_of_end:
  "map fend (running (raf_queue focusing_onMount)) = [(- 0.5, 0.5, 2)]
   \<and> running (raf_queue (run_onMount focusing_onMount (replicate 59 (Frame quiet)))) = []
   \<and> console (run_onMount focusing_onMount (replicate 59 (Frame quiet))) =
       [[''Open portfolio:'', ''photography'']]
   \<and> camera_position (run_onMount focusing_onMount (replicate 59 (Frame quiet))) =
       (- 29 / 60, 59 / 120, 61 / 30)"
proof -
  define s where "s = run_onMount focusing_onMount (replicate 58 (Frame quiet))"
  have r: "run_onMount focusing_onMount (replicate 59 (Frame quiet)) = frame_onMount quiet s"
  proof -
    have "replicate (58 + 1) (Frame quiet) = replicate 58 (Frame quiet) @ replicate 1 (Frame quiet)"
      by (rule replicate_add)
    then have "replicate 59 (Frame quiet) = replicate 58 (Frame quiet) @ [Frame quiet]"
      by simp
    then show ?thesis
      by (simp add: s_def run_onMount_def)
  qed
  have "in_flight (0.5, 0, 4) (- 0.5, 0.5, 2) ''photography'' (0 + Suc 57) s
    \<and> camera_position s = lerpVectors (0.5, 0, 4) (- 0.5, 0.5, 2) ((real (0 + Suc 57) + 1) / 60)
    \<and> console s = console focusing_onMount"
    unfolding s_def
    using frames_onMount_in_flight [OF focusing_onMount_state(1), of 57 quiet]
    by (simp add: eval_nat_numeral)
  then have f: "in_flight (0.5, 0, 4) (- 0.5, 0.5, 2) ''photography'' 58 s"
    and c: "camera_position s = (- 29 / 60, 59 / 120, 61 / 30)"
    and l: "console s = []"
    by (simp_all add: focusing_onMount_state(2))
  have e: "map fend (running (raf_queue focusing_onMount)) = [(- 0.5, 0.5, 2)]"
    using in_flight_queue [OF focusing_onMount_state(1)] by auto
  have o: "orbit quiet = (\<lambda>p. p)"
    by (simp add: quiet_def)
  show ?thesis
    unfolding r using frame_onMount_in_flight(4-6) [OF f, of quiet] e
    by (simp add: c l o)
qed

text \<open>
  The action in the same situation: the frame that ends the animation leaves the
  camera at the end position, whatever the controls wrote before.
\<close>

lemma frame_in_flight:
  assumes "in_flight a b key k s"
  shows "camera_position (frame inp s) =
           (if k < 58 then lerpVectors a b ((real (Suc k) + 1) / 60) else b)"
proof -
  obtain i j f where q: "raf_queue s = [(i, Animate), (j, Move f)]"
    and f: "fstart f = a" "fend f = b" "progress f = (real k + 1) / 60" "portfolio f = key"
    using in_flight_queue [OF assms] by blast
  have "frame inp s = move f (animate inp (s\<lparr>raf_queue := []\<rparr>))"
    by (simp add: frame_def q)
  then show ?thesis
    by (simp add: move_camera f sixty_ticks)
qed



end
